theory Spec2Isabelle
  imports Main "HOL-Library.Log_Nat"
begin

section \<open>IEEE 754 binary64 values\<close>

text \<open>
  Both scripts compute with Python floats and with numpy's \<open>float64\<close> scalars, which are
  IEEE 754 binary64 numbers.  A number is modelled by its sign bit and its magnitude, an
  exact rational; the two zeros, the two infinities and NaN are kept apart.  A finite value
  is a double when its magnitude is \<open>n * 2^e\<close> with \<open>n < 2^53\<close> and
  \<open>-1074 \<le> e \<le> 971\<close>.
\<close>

datatype f64 = Finite bool rat | Infinity bool | NaN

fun valof :: "f64 \<Rightarrow> rat" where
  "valof (Finite s m) = (if s then - m else m)"
| "valof (Infinity s) = 0"
| "valof NaN = 0"

fun is_finite :: "f64 \<Rightarrow> bool" where
  "is_finite (Finite s m) = True"
| "is_finite (Infinity s) = False"
| "is_finite NaN = False"

fun is_nan :: "f64 \<Rightarrow> bool" where
  "is_nan NaN = True"
| "is_nan (Finite s m) = False"
| "is_nan (Infinity s) = False"

fun is_zero :: "f64 \<Rightarrow> bool" where
  "is_zero (Finite s m) = (m = 0)"
| "is_zero (Infinity s) = False"
| "is_zero NaN = False"

subsection \<open>Rounding to nearest, ties to even\<close>

text \<open>\<open>flog2 x\<close> is \<open>\<lfloor>log\<^sub>2 x\<rfloor>\<close> for a positive rational, computed from the bit
  lengths of numerator and denominator.\<close>

definition flog2 :: "rat \<Rightarrow> int" where
  "flog2 x = (let (p, q) = quotient_of x; k = bitlen p - bitlen q
              in if 2 powi k \<le> x then k else k - 1)"

text \<open>The nearest integer, a tie going to the even neighbour.\<close>

definition rne :: "rat \<Rightarrow> int" where
  "rne x = (let n = \<lfloor>x\<rfloor>; r = x - of_int n
            in if r < 1 / 2 then n
               else if 1 / 2 < r then n + 1
               else if even n then n else n + 1)"

text \<open>The exponent of the last mantissa bit of the binade of \<open>x\<close>: 52 places below the
  leading bit, and never below the subnormal exponent \<open>-1074\<close>.\<close>

definition quantum :: "rat \<Rightarrow> int" where
  "quantum x = max (flog2 x - 52) (- 1074)"

text \<open>Rounding a magnitude.  \<open>None\<close> is overflow: the rounded mantissa no longer fits
  below \<open>2^1024\<close>, which is the case when the exponent is above 971, or is 971 and the
  mantissa was carried to \<open>2^53\<close>.\<close>

definition round_mag :: "rat \<Rightarrow> rat option" where
  "round_mag x =
     (if x = 0 then Some 0
      else let e = quantum x; n = rne (x / 2 powi e)
           in if 971 < e \<or> (e = 971 \<and> 9007199254740992 \<le> n) then None
              else Some (of_int n * 2 powi e))"

definition round_f64 :: "bool \<Rightarrow> rat \<Rightarrow> f64" where
  "round_f64 s m = (case round_mag m of None \<Rightarrow> Infinity s | Some r \<Rightarrow> Finite s r)"

definition f64_of_rat :: "rat \<Rightarrow> f64" where
  "f64_of_rat q = round_f64 (q < 0) \<bar>q\<bar>"

text \<open>A value of the model is a double when its magnitude is a fixed point of rounding.\<close>

fun is_f64 :: "f64 \<Rightarrow> bool" where
  "is_f64 (Finite s m) = (0 \<le> m \<and> round_mag m = Some m)"
| "is_f64 (Infinity s) = True"
| "is_f64 NaN = True"

subsection \<open>Arithmetic\<close>

fun fneg :: "f64 \<Rightarrow> f64" where
  "fneg (Finite s m) = Finite (\<not> s) m"
| "fneg (Infinity s) = Infinity (\<not> s)"
| "fneg NaN = NaN"

text \<open>An exact zero sum is \<open>-0\<close> only when both operands are negative (both are \<open>-0\<close>
  then); every other sum is the rounded exact sum.\<close>

fun fadd :: "f64 \<Rightarrow> f64 \<Rightarrow> f64" where
  "fadd (Finite s m) (Finite t n) =
     (let q = valof (Finite s m) + valof (Finite t n)
      in if q = 0 then Finite (s \<and> t) 0 else f64_of_rat q)"
| "fadd (Finite s m) (Infinity t) = Infinity t"
| "fadd (Infinity s) (Finite t n) = Infinity s"
| "fadd (Infinity s) (Infinity t) = (if s = t then Infinity s else NaN)"
| "fadd NaN b = NaN"
| "fadd a NaN = NaN"

definition fsub :: "f64 \<Rightarrow> f64 \<Rightarrow> f64" where
  "fsub a b = fadd a (fneg b)"

fun fmul :: "f64 \<Rightarrow> f64 \<Rightarrow> f64" where
  "fmul (Finite s m) (Finite t n) = round_f64 (s \<noteq> t) (m * n)"
| "fmul (Finite s m) (Infinity t) = (if m = 0 then NaN else Infinity (s \<noteq> t))"
| "fmul (Infinity s) (Finite t n) = (if n = 0 then NaN else Infinity (s \<noteq> t))"
| "fmul (Infinity s) (Infinity t) = Infinity (s \<noteq> t)"
| "fmul NaN b = NaN"
| "fmul a NaN = NaN"

text \<open>IEEE division: a nonzero number over zero is an infinity, \<open>0/0\<close> and
  \<open>\<infinity>/\<infinity>\<close> are NaN.\<close>

fun fdiv :: "f64 \<Rightarrow> f64 \<Rightarrow> f64" where
  "fdiv (Finite s m) (Finite t n) =
     (if n = 0 then (if m = 0 then NaN else Infinity (s \<noteq> t))
      else round_f64 (s \<noteq> t) (m / n))"
| "fdiv (Finite s m) (Infinity t) = Finite (s \<noteq> t) 0"
| "fdiv (Infinity s) (Finite t n) = Infinity (s \<noteq> t)"
| "fdiv (Infinity s) (Infinity t) = NaN"
| "fdiv NaN b = NaN"
| "fdiv a NaN = NaN"

subsection \<open>Comparisons\<close>

text \<open>The comparisons of IEEE 754, which are Python's \<open>==\<close> and \<open><=\<close> on floats: NaN
  compares false with everything, and the two zeros are equal.\<close>

fun feq :: "f64 \<Rightarrow> f64 \<Rightarrow> bool" where
  "feq (Finite s m) (Finite t n) = (valof (Finite s m) = valof (Finite t n))"
| "feq (Infinity s) (Infinity t) = (s = t)"
| "feq (Finite s m) (Infinity t) = False"
| "feq (Infinity s) (Finite t n) = False"
| "feq NaN b = False"
| "feq a NaN = False"



section \<open>Python numbers\<close>

text \<open>
  The conversion functions are duck-typed.  The docstrings give every parameter as
  \<open>float\<close>; the drivers call them with \<open>numpy.float64\<close> velocities taken from the array
  \<open>velocities\<close>.  Both are binary64 and differ in their faults: on builtin floats
  \<open>/\<close> raises \<open>ZeroDivisionError\<close> for a zero divisor and \<open>**\<close> raises
  \<open>OverflowError\<close> when the power of a finite number overflows, while numpy's scalars
  return the IEEE result (with a warning).  An operation with a numpy operand is numpy's.
  An \<open>int\<close> literal of the scripts that meets a float is converted exactly.
\<close>

text \<open>\<open>Exception\<close> stands for whatever the external property evaluator raises.\<close>

datatype pyerror = ZeroDivisionError | OverflowError | KeyError | Exception

datatype pynum = PyFloat f64 | NpFloat f64

fun val :: "pynum \<Rightarrow> f64" where
  "val (PyFloat a) = a"
| "val (NpFloat a) = a"

fun is_np :: "pynum \<Rightarrow> bool" where
  "is_np (PyFloat a) = False"
| "is_np (NpFloat a) = True"

definition mk :: "bool \<Rightarrow> f64 \<Rightarrow> pynum" where
  "mk np a = (if np then NpFloat a else PyFloat a)"

definition py_float :: "rat \<Rightarrow> pynum" where
  \<comment> \<open>a float literal: the double nearest to the decimal written\<close>
  "py_float q = PyFloat (f64_of_rat q)"

definition py_int :: "int \<Rightarrow> pynum" where
  \<comment> \<open>an int literal as the operand of a float operation\<close>
  "py_int n = PyFloat (f64_of_rat (of_int n))"

definition py_add :: "pynum \<Rightarrow> pynum \<Rightarrow> pynum" where
  "py_add a b = mk (is_np a \<or> is_np b) (fadd (val a) (val b))"

definition py_sub :: "pynum \<Rightarrow> pynum \<Rightarrow> pynum" where
  "py_sub a b = mk (is_np a \<or> is_np b) (fsub (val a) (val b))"

definition py_mul :: "pynum \<Rightarrow> pynum \<Rightarrow> pynum" where
  "py_mul a b = mk (is_np a \<or> is_np b) (fmul (val a) (val b))"

definition py_div :: "pynum \<Rightarrow> pynum \<Rightarrow> pyerror + pynum" where
  "py_div a b =
     (if is_np a \<or> is_np b then Inr (NpFloat (fdiv (val a) (val b)))
      else if is_zero (val b) then Inl ZeroDivisionError
      else Inr (PyFloat (fdiv (val a) (val b))))"

text \<open>\<open>V**2\<close> is the C library's \<open>pow(V, 2.0)\<close>.  The model takes it to be the double
  nearest to the exact square.  That is the library's result whenever the square is itself
  a double (as for \<open>100.0\<close>, \<open>296.0\<close> or \<open>300.0\<close>); on other inputs the library may
  return the neighbouring double.  On a builtin float, a finite base whose square
  overflows raises; numpy returns \<open>inf\<close>.\<close>

definition square_overflows :: "f64 \<Rightarrow> bool" where
  "square_overflows a = (is_finite a \<and> \<not> is_finite (fmul a a))"

definition py_pow2 :: "pynum \<Rightarrow> pyerror + pynum" where
  "py_pow2 a =
     (if is_np a then Inr (NpFloat (fmul (val a) (val a)))
      else if square_overflows (val a) then Inl OverflowError
      else Inr (PyFloat (fmul (val a) (val a))))"

definition py_eq :: "pynum \<Rightarrow> pynum \<Rightarrow> bool" where
  "py_eq a b = feq (val a) (val b)"



text \<open>Sequencing: an exception raised by an operand ends the evaluation.\<close>

fun and_then :: "pyerror + 'a \<Rightarrow> ('a \<Rightarrow> pyerror + 'b) \<Rightarrow> pyerror + 'b" where
  "and_then (Inl e) f = Inl e"
| "and_then (Inr x) f = f x"

section \<open>pressure\_sensitivity.py\<close>

text \<open>\<^verbatim>\<open>return P_static + 0.5 * rho * V**2\<close>\<close>

definition static_to_total_pressure :: "pynum \<Rightarrow> pynum \<Rightarrow> pynum \<Rightarrow> pyerror + pynum" where
  "static_to_total_pressure P_static V rho =
     (let h = py_mul (py_float (1 / 2)) rho
      in and_then (py_pow2 V) (\<lambda>V2. Inr (py_add P_static (py_mul h V2))))"

text \<open>\<^verbatim>\<open>return P_total - 0.5 * rho * V**2\<close>\<close>

definition total_to_static_pressure :: "pynum \<Rightarrow> pynum \<Rightarrow> pynum \<Rightarrow> pyerror + pynum" where
  "total_to_static_pressure P_total V rho =
     (let h = py_mul (py_float (1 / 2)) rho
      in and_then (py_pow2 V) (\<lambda>V2. Inr (py_sub P_total (py_mul h V2))))"

section \<open>temperature\_sensitivity.py\<close>

text \<open>\<^verbatim>\<open>return T_static + 0.5 * V**2 / Cp\<close>\<close>

definition static_to_total_temperature :: "pynum \<Rightarrow> pynum \<Rightarrow> pynum \<Rightarrow> pyerror + pynum" where
  "static_to_total_temperature T_static V Cp =
     and_then (py_pow2 V) (\<lambda>V2.
     and_then (py_div (py_mul (py_float (1 / 2)) V2) Cp) (\<lambda>c.
     Inr (py_add T_static c)))"

text \<open>\<^verbatim>\<open>return T_total - 0.5 * V**2 / Cp\<close>\<close>

definition total_to_static_temperature :: "pynum \<Rightarrow> pynum \<Rightarrow> pynum \<Rightarrow> pyerror + pynum" where
  "total_to_static_temperature T_total V Cp =
     and_then (py_pow2 V) (\<lambda>V2.
     and_then (py_div (py_mul (py_float (1 / 2)) V2) Cp) (\<lambda>c.
     Inr (py_sub T_total c)))"

text \<open>\<^verbatim>\<open>return T_measured - (1 - rf) * 0.5 * V**2 / Cp\<close>\<close>

definition measured_to_total_temperature ::
  "pynum \<Rightarrow> pynum \<Rightarrow> pynum \<Rightarrow> pynum \<Rightarrow> pyerror + pynum" where
  "measured_to_total_temperature T_measured V Cp rf =
     (let k = py_mul (py_sub (py_int 1) rf) (py_float (1 / 2))
      in and_then (py_pow2 V) (\<lambda>V2.
         and_then (py_div (py_mul k V2) Cp) (\<lambda>c.
         Inr (py_sub T_measured c))))"

section \<open>The scripts\<close>

subsection \<open>numpy.linspace\<close>

text \<open>
  \<open>numpy.linspace(start, stop, num)\<close> is library code.  With \<open>endpoint=True\<close> numpy
  computes \<open>div = num - 1\<close>, \<open>delta = stop - start\<close> and \<open>step = delta / div\<close>,
  multiplies \<open>arange(0, num)\<close> by \<open>step\<close> (dividing by \<open>div\<close> and multiplying by
  \<open>delta\<close> instead when the step is zero, and multiplying by \<open>delta\<close> when \<open>div\<close> is
  not positive), adds \<open>start\<close>, and finally overwrites the last sample by \<open>stop\<close> when
  there is more than one.  The operations are numpy's, so none of them raises.
\<close>

definition np_linspace :: "f64 \<Rightarrow> f64 \<Rightarrow> nat \<Rightarrow> f64 list" where
  "np_linspace start stop num =
     (let dv = num - 1;
          delta = fsub stop start;
          y0 = map (\<lambda>i. f64_of_rat (of_nat i)) [0..<num];
          y1 = (if 0 < dv then
                  (let step = fdiv delta (f64_of_rat (of_nat dv))
                   in if is_zero step
                      then map (\<lambda>a. fmul (fdiv a (f64_of_rat (of_nat dv))) delta) y0
                      else map (\<lambda>a. fmul a step) y0)
                else map (\<lambda>a. fmul a delta) y0);
          y2 = map (\<lambda>a. fadd a start) y1
      in if 1 < num then y2[num - 1 := stop] else y2)"

text \<open>\<^verbatim>\<open>velocities = np.linspace(0, 300, 100)\<close>, in both scripts; iterating over the array
  yields \<open>numpy.float64\<close> scalars.\<close>

definition velocities :: "pynum list" where
  "velocities = map NpFloat (np_linspace (f64_of_rat 0) (f64_of_rat 300) 100)"

subsection \<open>pressure\_sensitivity.py\<close>

text \<open>\<^verbatim>\<open>P_static = 1.0\<close> (bara), \<^verbatim>\<open>T = 20.0\<close> (Celsius) and the composition in mole per cent.\<close>

definition P_static :: pynum where
  "P_static = py_float 1"

definition T :: pynum where
  "T = py_float 20"

definition composition :: "string \<rightharpoonup> pynum" where
  "composition = [''N2'' \<mapsto> py_float 1, ''CO2'' \<mapsto> py_float 1, ''C1'' \<mapsto> py_float 90,
     ''C2'' \<mapsto> py_float 5, ''C3'' \<mapsto> py_float 2, ''iC4'' \<mapsto> py_float (1 / 2),
     ''nC4'' \<mapsto> py_float (1 / 2)]"

text \<open>
  \<open>gerg.calculate_from_PT\<close> belongs to the external package \<open>pvtlib\<close>: it is a
  parameter of the script, a function from composition, pressure and temperature to a
  dictionary of properties, or an exception.
\<close>

type_synonym gas_properties = "string \<rightharpoonup> pynum"

type_synonym equation_of_state =
  "(string \<rightharpoonup> pynum) \<Rightarrow> pynum \<Rightarrow> pynum \<Rightarrow> pyerror + gas_properties"

record pressure_results =
  P_static_values :: "pynum list"
  P_relative_diff_total_static :: "pynum list"

text \<open>
  \<^verbatim>\<open>
  for V in velocities:
      P_total = static_to_total_pressure(P_static*10**5, V, gas_properties['rho'])/10**5
      P_static_values.append(P_static)
      relative_difference = 100 * (P_total - P_static) / P_static
      P_relative_diff_total_static.append(relative_difference)
  \<close>
\<close>

definition relative_difference_of :: "pynum \<Rightarrow> pynum \<Rightarrow> pyerror + pynum" where
  \<comment> \<open>the value appended for the density \<open>rho\<close> and the velocity \<open>V\<close>\<close>
  "relative_difference_of rho V =
     and_then (static_to_total_pressure (py_mul P_static (py_int (10 ^ 5))) V rho) (\<lambda>Pt.
     and_then (py_div Pt (py_int (10 ^ 5))) (\<lambda>P_total.
     py_div (py_mul (py_int 100) (py_sub P_total P_static)) P_static))"

fun pressure_loop ::
  "gas_properties \<Rightarrow> pynum list \<Rightarrow> pressure_results \<Rightarrow> pyerror + pressure_results" where
  "pressure_loop gas_properties [] st = Inr st"
| "pressure_loop gas_properties (V # Vs) st =
     (case gas_properties ''rho'' of
        None \<Rightarrow> Inl KeyError
      | Some rho \<Rightarrow>
          and_then (relative_difference_of rho V) (\<lambda>relative_difference.
          pressure_loop gas_properties Vs
            \<lparr>P_static_values = P_static_values st @ [P_static],
             P_relative_diff_total_static =
               P_relative_diff_total_static st @ [relative_difference]\<rparr>))"

definition pressure_sensitivity :: "equation_of_state \<Rightarrow> pyerror + pressure_results" where
  "pressure_sensitivity calculate_from_PT =
     and_then (calculate_from_PT composition P_static T) (\<lambda>gas_properties.
     pressure_loop gas_properties velocities
       \<lparr>P_static_values = [], P_relative_diff_total_static = []\<rparr>)"

subsection \<open>temperature\_sensitivity.py\<close>

text \<open>\<^verbatim>\<open>T_total = 293.15\<close>, \<^verbatim>\<open>Cp = 2080\<close> (an int), \<^verbatim>\<open>rf = 0.65\<close>.\<close>

definition T_total :: pynum where
  "T_total = py_float (29315 / 100)"

definition Cp :: pynum where
  "Cp = py_int 2080"

definition rf :: pynum where
  "rf = py_float (65 / 100)"

record temperature_results =
  T_measured_values :: "pynum list"
  T_static_values :: "pynum list"
  T_diff_measured_static :: "pynum list"

text \<open>
  \<^verbatim>\<open>
  for V in velocities:
      T_static = total_to_static_temperature(T_total, V, Cp)
      T_measured = T_static + (1 - rf) * 0.5 * V**2 / Cp
      T_static_values.append(T_static)
      T_measured_values.append(T_measured)
      T_diff_measured_static.append(T_measured - T_static)
  \<close>
\<close>

definition kinetic_correction :: "pynum \<Rightarrow> pyerror + pynum" where
  \<comment> \<open>\<^verbatim>\<open>(1 - rf) * 0.5 * V**2 / Cp\<close> in the loop body\<close>
  "kinetic_correction V =
     (let k = py_mul (py_sub (py_int 1) rf) (py_float (1 / 2))
      in and_then (py_pow2 V) (\<lambda>V2. py_div (py_mul k V2) Cp))"

fun temperature_loop ::
  "pynum list \<Rightarrow> temperature_results \<Rightarrow> pyerror + temperature_results" where
  "temperature_loop [] st = Inr st"
| "temperature_loop (V # Vs) st =
     and_then (total_to_static_temperature T_total V Cp) (\<lambda>T_static.
     and_then (kinetic_correction V) (\<lambda>c.
     (let T_measured = py_add T_static c
      in temperature_loop Vs
           \<lparr>T_measured_values = T_measured_values st @ [T_measured],
            T_static_values = T_static_values st @ [T_static],
            T_diff_measured_static =
              T_diff_measured_static st @ [py_sub T_measured T_static]\<rparr>)))"

definition temperature_sensitivity :: "pyerror + temperature_results" where
  "temperature_sensitivity =
     temperature_loop velocities
       \<lparr>T_measured_values = [], T_static_values = [], T_diff_measured_static = []\<rparr>"

section \<open>Auxiliary notions for the proofs\<close>

text \<open>The mantissa of \<open>x\<close> before rounding, the unit roundoff \<open>2^-53\<close> and half the
  smallest subnormal, \<open>2^-1075\<close>.\<close>

definition scaled :: "rat \<Rightarrow> rat" where
  "scaled x = x / 2 powi (quantum x)"

definition eps :: rat where
  "eps = 1 / 2 ^ 53"

definition eta :: rat where
  "eta = 2 powi (- 1075)"


section \<open>Properties of rounding\<close>

lemma powi2_less_iff: "(2::rat) powi m < 2 powi n \<longleftrightarrow> m < n"
proof
  assume a: "(2::rat) powi m < 2 powi n"
  show "m < n"
  proof (rule ccontr)
    assume "\<not> m < n"
    then have "n \<le> m" by simp
    then have "(2::rat) powi n \<le> 2 powi m" by (rule power_int_increasing) simp
    with a show False by simp
  qed
next
  assume "m < n"
  then show "(2::rat) powi m < 2 powi n" by (rule power_int_strict_increasing) simp
qed

lemma powi2_le_iff: "(2::rat) powi m \<le> 2 powi n \<longleftrightarrow> m \<le> n"
  using powi2_less_iff[of n m] by (auto simp: not_less[symmetric])

lemma powi2_add: "(2::rat) powi (m + n) = 2 powi m * 2 powi n"
  by (simp add: power_int_add)

lemma bitlen_powi_bounds:
  fixes p :: int
  assumes "0 < p"
  shows "(2::rat) powi (bitlen p - 1) \<le> of_int p" and "of_int p < (2::rat) powi (bitlen p)"
proof -
  from bitlen_bounds[OF assms] have a: "2 ^ nat (bitlen p - 1) \<le> p" and b: "p < 2 ^ nat (bitlen p)"
    by auto
  have ge1: "1 \<le> bitlen p" using assms by (auto simp: bitlen_alt_def)
  have "(2::rat) powi (bitlen p - 1) = 2 ^ nat (bitlen p - 1)"
    using ge1 by (simp add: power_int_def)
  also have "\<dots> = of_int (2 ^ nat (bitlen p - 1))" by simp
  also have "\<dots> \<le> of_int p" using a by (simp only: of_int_le_iff)
  finally show "(2::rat) powi (bitlen p - 1) \<le> of_int p" .
  have "(of_int p :: rat) < of_int (2 ^ nat (bitlen p))" using b by (simp only: of_int_less_iff)
  also have "\<dots> = 2 ^ nat (bitlen p)" by simp
  also have "\<dots> = (2::rat) powi (bitlen p)" using ge1 by (simp add: power_int_def)
  finally show "of_int p < (2::rat) powi (bitlen p)" .
qed

lemma flog2_bounds:
  assumes "0 < x"
  shows "2 powi (flog2 x) \<le> x" and "x < 2 powi (flog2 x + 1)"
proof -
  obtain p q where pq: "quotient_of x = (p, q)" by (cases "quotient_of x")
  have q: "0 < q" using pq by (rule quotient_of_denom_pos)
  have x: "x = of_int p / of_int q" using pq by (rule quotient_of_div)
  have p: "0 < p" using assms q x by (simp add: zero_less_divide_iff)
  define k where "k = bitlen p - bitlen q"
  note bp = bitlen_powi_bounds[OF p] and bq = bitlen_powi_bounds[OF q]
  have qpos: "(0::rat) < of_int q" using q by simp
  have lo: "2 powi (k - 1) \<le> x"
  proof -
    have "(2::rat) powi (k - 1) * of_int q \<le> 2 powi (k - 1) * 2 powi (bitlen q)"
      using bq(2) by (simp add: mult_left_mono)
    also have "\<dots> = 2 powi (bitlen p - 1)"
      by (simp add: k_def power_int_add[symmetric])
    also have "\<dots> \<le> of_int p" by (rule bp(1))
    finally show ?thesis using qpos by (simp add: x pos_le_divide_eq)
  qed
  have hi: "x < 2 powi (k + 1)"
  proof -
    have "(of_int p :: rat) < 2 powi (bitlen p)" by (rule bp(2))
    also have "\<dots> = 2 powi (k + 1) * 2 powi (bitlen q - 1)"
      by (simp add: k_def power_int_add[symmetric])
    also have "\<dots> \<le> 2 powi (k + 1) * of_int q"
      using bq(1) by (simp add: mult_left_mono)
    finally show ?thesis using qpos by (simp add: x pos_divide_less_eq)
  qed
  have f: "flog2 x = (if 2 powi k \<le> x then k else k - 1)"
    by (simp add: flog2_def pq k_def Let_def)
  show "2 powi (flog2 x) \<le> x" using lo by (simp add: f)
  show "x < 2 powi (flog2 x + 1)" using hi by (auto simp add: f not_le)
qed

lemma flog2_unique:
  assumes "2 powi k \<le> x" "x < 2 powi (k + 1)"
  shows "flog2 x = k"
proof -
  have x: "0 < x" using assms(1) by (rule less_le_trans[rotated]) simp
  note b = flog2_bounds[OF x]
  have "2 powi k < (2::rat) powi (flog2 x + 1)" using assms(1) b(2) by simp
  then have 1: "k < flog2 x + 1" by (simp add: powi2_less_iff) 
  have "2 powi (flog2 x) < (2::rat) powi (k + 1)" using assms(2) b(1) by simp
  then have 2: "flog2 x < k + 1" by (simp add: powi2_less_iff)
  from 1 2 show ?thesis by simp
qed

lemma rne_error: "\<bar>of_int (rne x) - x\<bar> \<le> 1 / 2"
proof -
  have "of_int \<lfloor>x\<rfloor> \<le> x" "x < of_int \<lfloor>x\<rfloor> + 1" by linarith+
  then show ?thesis by (auto simp: rne_def Let_def abs_le_iff)
qed

lemma rne_of_int [simp]: "rne (of_int n) = n"
  by (simp add: rne_def)

lemma rne_mono: assumes "x \<le> y" shows "rne x \<le> rne y"
proof (cases "\<lfloor>x\<rfloor> = \<lfloor>y\<rfloor>")
  case True
  then show ?thesis using assms by (auto simp: rne_def Let_def)
next
  case False
  then have "\<lfloor>x\<rfloor> + 1 \<le> \<lfloor>y\<rfloor>" using floor_mono[OF assms] by linarith
  moreover have "rne x \<le> \<lfloor>x\<rfloor> + 1" by (auto simp: rne_def Let_def)
  moreover have "\<lfloor>y\<rfloor> \<le> rne y" by (auto simp: rne_def Let_def)
  ultimately show ?thesis by linarith
qed

lemma flog2_mono:
  assumes "0 < x" "x \<le> y"
  shows "flog2 x \<le> flog2 y"
proof -
  have y: "0 < y" using assms by simp
  have "2 powi (flog2 x) \<le> x" using assms(1) by (rule flog2_bounds)
  also have "x \<le> y" by fact
  also have "y < 2 powi (flog2 y + 1)" using y by (rule flog2_bounds)
  finally show ?thesis by (simp add: powi2_less_iff)
qed

lemma quantum_ge: "- 1074 \<le> quantum x"
  by (simp add: quantum_def)

lemma quantum_mono: "0 < x \<Longrightarrow> x \<le> y \<Longrightarrow> quantum x \<le> quantum y"
  using flog2_mono[of x y] by (simp add: quantum_def)

lemma quantum_upper:
  assumes "0 < x"
  shows "x < 2 powi (quantum x + 53)"
proof -
  have "x < 2 powi (flog2 x + 1)" using assms by (rule flog2_bounds)
  also have "\<dots> \<le> 2 powi (quantum x + 53)"
    by (simp add: powi2_le_iff quantum_def)
  finally show ?thesis .
qed

lemma quantum_lower:
  assumes "0 < x" "- 1074 < quantum x"
  shows "2 powi (quantum x + 52) \<le> x"
proof -
  have "quantum x = flog2 x - 52" using assms(2) by (simp add: quantum_def max_def split: if_splits)
  then have "(2::rat) powi (quantum x + 52) = 2 powi (flog2 x)" by simp
  also have "\<dots> \<le> x" using assms(1) by (rule flog2_bounds)
  finally show ?thesis .
qed

lemma scaled_unscale: "scaled x * 2 powi (quantum x) = x"
  by (simp add: scaled_def)

lemma scaled_upper: assumes "0 < x" shows "scaled x < 9007199254740992"
proof -
  have "x < 2 powi (quantum x) * 2 powi 53"
    using quantum_upper[OF assms] by (simp only: powi2_add)
  then show ?thesis by (simp add: scaled_def pos_divide_less_eq mult.commute)
qed

lemma scaled_lower: assumes "0 < x" "- 1074 < quantum x" shows "4503599627370496 \<le> scaled x"
proof -
  have "2 powi (quantum x) * 2 powi 52 \<le> x"
    using quantum_lower[OF assms] by (simp only: powi2_add)
  then show ?thesis by (simp add: scaled_def pos_le_divide_eq mult.commute)
qed

lemma scaled_pos: "0 < x \<Longrightarrow> 0 < scaled x"
  by (simp add: scaled_def)

lemma rne_nonneg: "0 \<le> x \<Longrightarrow> 0 \<le> rne x"
  using rne_mono[of 0 x] rne_of_int[of 0] by simp

lemma rne_scaled_upper: assumes "0 < x" shows "rne (scaled x) \<le> 9007199254740992"
proof -
  have "rne (scaled x) \<le> rne (of_int 9007199254740992)"
    by (rule rne_mono) (use scaled_upper[OF assms] in simp)
  then show ?thesis by (simp only: rne_of_int)
qed

lemma rne_scaled_lower:
  assumes "0 < x" "- 1074 < quantum x" shows "4503599627370496 \<le> rne (scaled x)"
proof -
  have "rne (of_int 4503599627370496) \<le> rne (scaled x)"
    by (rule rne_mono) (use scaled_lower[OF assms] in simp)
  then show ?thesis by (simp only: rne_of_int)
qed

lemma round_mag_pos:
  assumes "0 < x"
  shows "round_mag x =
     (if 971 < quantum x \<or> (quantum x = 971 \<and> 9007199254740992 \<le> rne (scaled x)) then None
      else Some (of_int (rne (scaled x)) * 2 powi (quantum x)))"
proof -
  have "x \<noteq> 0" using assms by simp
  then show ?thesis unfolding round_mag_def Let_def scaled_def by (simp only: if_False)
qed

lemma round_mag_nonneg: "0 \<le> x \<Longrightarrow> round_mag x = Some r \<Longrightarrow> 0 \<le> r"
proof (cases "x = 0")
  case True
  then show "round_mag x = Some r \<Longrightarrow> 0 \<le> r" by (simp add: round_mag_def)
next
  case False
  assume "0 \<le> x" "round_mag x = Some r"
  with False have x: "0 < x" by simp
  have "0 \<le> rne (scaled x)" using scaled_pos[OF x] by (intro rne_nonneg) simp
  with \<open>round_mag x = Some r\<close> show "0 \<le> r"
    by (auto simp: round_mag_pos[OF x] split: if_splits)
qed

lemma round_mag_error:
  assumes "0 \<le> x" "round_mag x = Some r"
  shows "\<bar>r - x\<bar> \<le> 2 powi (quantum x) / 2"
proof (cases "x = 0")
  case True
  with assms show ?thesis by (simp add: round_mag_def)
next
  case False
  with assms have x: "0 < x" by simp
  from assms(2) have r: "r = of_int (rne (scaled x)) * 2 powi (quantum x)"
    by (auto simp: round_mag_pos[OF x] split: if_splits)
  have "r - x = (of_int (rne (scaled x)) - scaled x) * 2 powi (quantum x)"
    by (simp add: r algebra_simps scaled_unscale)
  then have "\<bar>r - x\<bar> = \<bar>of_int (rne (scaled x)) - scaled x\<bar> * 2 powi (quantum x)"
    by (simp add: abs_mult)
  also have "\<dots> \<le> (1 / 2) * 2 powi (quantum x)"
    by (rule mult_right_mono[OF rne_error]) simp
  finally show ?thesis by simp
qed


lemma eta_pos: "0 < eta" by (simp add: eta_def del: power_int_numeral_neg_numeral)

lemma half_quantum_le:
  assumes "0 < x"
  shows "2 powi (quantum x) / 2 \<le> eps * x + eta"
proof (cases "- 1074 < quantum x")
  case True
  have "2 powi (quantum x) * 2 powi 52 \<le> x"
    using quantum_lower[OF assms True] by (simp only: powi2_add)
  then have "2 powi (quantum x) / 2 \<le> eps * x" by (simp add: eps_def)
  then show ?thesis using eta_pos by linarith
next
  case False
  then have q: "quantum x = - 1074" using quantum_ge[of x] by linarith
  have "(2::rat) powi (- 1074) = 2 powi (- 1075) * 2 powi 1"
    by (simp only: powi2_add[symmetric]) simp
  then have "(2::rat) powi (quantum x) / 2 = eta" unfolding q eta_def
    by (simp del: power_int_numeral_neg_numeral)
  moreover have "0 \<le> eps * x" using assms by (simp add: eps_def)
  ultimately show ?thesis by linarith
qed

lemma round_mag_rel_error:
  assumes "0 \<le> x" "round_mag x = Some r"
  shows "\<bar>r - x\<bar> \<le> eps * x + eta"
proof (cases "x = 0")
  case True
  with assms eta_pos show ?thesis by (simp add: round_mag_def less_imp_le)
next
  case False
  with assms have "0 < x" by simp
  from round_mag_error[OF assms] half_quantum_le[OF this] show ?thesis by linarith
qed

lemma scaled_eq: assumes "x = a * 2 powi (quantum x)" shows "scaled x = a"
proof -
  have "scaled x * 2 powi (quantum x) = a * 2 powi (quantum x)"
    by (subst scaled_unscale) (rule assms)
  then show ?thesis by simp
qed

lemma round_mag_repr:
  assumes "0 \<le> n" "n < 9007199254740992" "- 1074 \<le> e" "e \<le> 971"
  shows "round_mag (of_int n * 2 powi e) = Some (of_int n * 2 powi e)"
proof (cases "n = 0")
  case True
  then show ?thesis by (simp add: round_mag_def)
next
  case False
  define x :: rat where "x = of_int n * 2 powi e"
  have n: "0 < n" using assms(1) False by simp
  have x: "0 < x" using n by (simp add: x_def)
  have "x < 9007199254740992 * 2 powi e"
    unfolding x_def using assms(2) by (intro mult_strict_right_mono) auto
  also have "\<dots> = 2 powi (e + 53)" by (simp add: powi2_add)
  finally have "2 powi (flog2 x) < (2::rat) powi (e + 53)"
    using flog2_bounds(1)[OF x] by simp
  then have "flog2 x < e + 53" by (simp only: powi2_less_iff)
  then have qe: "quantum x \<le> e" using assms(3) by (simp add: quantum_def)
  define d where "d = nat (e - quantum x)"
  have e: "e = quantum x + int d" using qe by (simp add: d_def)
  have "(2::rat) powi e = 2 powi (quantum x) * 2 ^ d"
    by (subst e) (simp only: powi2_add power_int_of_nat)
  then have "x = of_int (n * 2 ^ d) * 2 powi (quantum x)"
    by (simp only: x_def of_int_mult of_int_power of_int_numeral mult_ac)
  then have sc: "scaled x = of_int (n * 2 ^ d)" by (rule scaled_eq)
  have r: "rne (scaled x) = n * 2 ^ d" unfolding sc by (rule rne_of_int)
  have un: "of_int (rne (scaled x)) * 2 powi (quantum x) = x"
    unfolding r sc[symmetric] by (rule scaled_unscale)
  have "\<not> 971 < quantum x" using qe assms(4) by simp
  moreover have "\<not> (quantum x = 971 \<and> 9007199254740992 \<le> rne (scaled x))"
  proof
    assume a: "quantum x = 971 \<and> 9007199254740992 \<le> rne (scaled x)"
    then have "d = 0" using qe assms(4) by (simp add: d_def)
    with a r assms(2) show False by simp
  qed
  ultimately have "round_mag x = Some x"
    by (simp only: round_mag_pos[OF x] un if_False simp_thms)
  then show ?thesis by (simp only: x_def)
qed

lemma round_mag_SomeD:
  assumes "0 < x" "round_mag x = Some r"
  shows "r = of_int (rne (scaled x)) * 2 powi (quantum x)"
    and "quantum x \<le> 971"
    and "quantum x = 971 \<Longrightarrow> rne (scaled x) < 9007199254740992"
proof -
  let ?c = "971 < quantum x \<or> (quantum x = 971 \<and> 9007199254740992 \<le> rne (scaled x))"
  have c: "\<not> ?c"
  proof
    assume ?c
    then have "round_mag x = None" by (simp only: round_mag_pos[OF assms(1)] if_True)
    with assms(2) show False by simp
  qed
  then have "round_mag x = Some (of_int (rne (scaled x)) * 2 powi (quantum x))"
    by (simp only: round_mag_pos[OF assms(1)] if_False)
  with assms(2) show "r = of_int (rne (scaled x)) * 2 powi (quantum x)" by simp
  from c show "quantum x \<le> 971" by linarith
  from c show "quantum x = 971 \<Longrightarrow> rne (scaled x) < 9007199254740992" by linarith
qed

lemma round_mag_SomeI:
  assumes "0 < x" "quantum x \<le> 971"
    and "quantum x = 971 \<Longrightarrow> rne (scaled x) < 9007199254740992"
  shows "round_mag x = Some (of_int (rne (scaled x)) * 2 powi (quantum x))"
proof -
  have "\<not> (971 < quantum x \<or> (quantum x = 971 \<and> 9007199254740992 \<le> rne (scaled x)))"
    using assms(2,3) by linarith
  then show ?thesis by (simp only: round_mag_pos[OF assms(1)] if_False)
qed

lemma round_mag_representable:
  assumes "0 \<le> x" "round_mag x = Some r"
  shows "\<exists>n e. 0 \<le> n \<and> n < 9007199254740992 \<and> - 1074 \<le> e \<and> e \<le> 971
           \<and> r = of_int n * 2 powi e"
proof (cases "x = 0")
  case True
  with assms have "r = of_int 0 * 2 powi 0" by (simp add: round_mag_def)
  then have "0 \<le> (0::int) \<and> (0::int) < 9007199254740992 \<and> - 1074 \<le> (0::int) \<and> (0::int) \<le> 971
           \<and> r = of_int 0 * 2 powi 0" by simp
  then show ?thesis by (intro exI)
next
  case False
  with assms have x: "0 < x" by simp
  let ?n = "rne (scaled x)" and ?q = "quantum x"
  note d = round_mag_SomeD[OF x assms(2)]
  have n0: "0 \<le> ?n" using scaled_pos[OF x] by (intro rne_nonneg) simp
  have n1: "?n \<le> 9007199254740992" by (rule rne_scaled_upper[OF x])
  have q0: "- 1074 \<le> ?q" by (rule quantum_ge)
  show ?thesis
  proof (cases "?n = 9007199254740992")
    case True
    with d(2,3) have q: "?q + 1 \<le> 971" by linarith
    have "r = 2 powi 53 * 2 powi ?q" by (simp only: d(1) True) simp
    also have "\<dots> = 2 powi 52 * 2 powi (?q + 1)"
      by (simp only: powi2_add[symmetric]) (simp add: add.commute)
    finally have "r = of_int 4503599627370496 * 2 powi (?q + 1)" by simp
    moreover have "- 1074 \<le> ?q + 1" using q0 by simp
    ultimately have "0 \<le> (4503599627370496::int) \<and> (4503599627370496::int) < 9007199254740992
       \<and> - 1074 \<le> ?q + 1 \<and> ?q + 1 \<le> 971 \<and> r = of_int 4503599627370496 * 2 powi (?q + 1)"
      using q by simp
    then show ?thesis by (intro exI)
  next
    case False
    with n1 have "?n < 9007199254740992" by simp
    with n0 d(1,2) q0 have "0 \<le> ?n \<and> ?n < 9007199254740992 \<and> - 1074 \<le> ?q \<and> ?q \<le> 971
       \<and> r = of_int ?n * 2 powi ?q" by simp
    then show ?thesis by (intro exI)
  qed
qed

lemma round_mag_idem:
  assumes "0 \<le> x" "round_mag x = Some r"
  shows "round_mag r = Some r"
proof -
  from round_mag_representable[OF assms] obtain n e where
    "0 \<le> n" "n < 9007199254740992" "- 1074 \<le> e" "e \<le> 971" and r: "r = of_int n * 2 powi e"
    by blast
  then show ?thesis unfolding r by (intro round_mag_repr)
qed

lemma round_mag_mono_same:
  assumes x: "0 < x" and y: "0 < y" and "x \<le> y" "round_mag y = Some s" and True: "quantum x = quantum y"
  shows "\<exists>r. round_mag x = Some r \<and> r \<le> s"
proof -
  let ?nx = "rne (scaled x)" and ?qx = "quantum x"
  let ?ny = "rne (scaled y)" and ?qy = "quantum y"
  note d = round_mag_SomeD[OF y assms(4)]
  have "x / 2 powi ?qy \<le> y / 2 powi ?qy"
    using assms(3) by (rule divide_right_mono) simp
  then have "scaled x \<le> scaled y" by (simp only: scaled_def True)
  then have nn: "?nx \<le> ?ny" by (rule rne_mono)
  then have "(of_int ?nx :: rat) \<le> of_int ?ny" by (simp only: of_int_le_iff)
  then have "(of_int ?nx :: rat) * 2 powi ?qx \<le> of_int ?ny * 2 powi ?qx"
    by (rule mult_right_mono) simp
  then have le: "(of_int ?nx :: rat) * 2 powi ?qx \<le> s" by (simp only: d(1) True)
  have "round_mag x = Some (of_int ?nx * 2 powi ?qx)"
  proof (rule round_mag_SomeI[OF x])
    show "?qx \<le> 971" using d(2) by (simp only: True)
    show "?nx < 9007199254740992" if "?qx = 971"
    proof -
      from that have "?qy = 971" by (simp only: True)
      then have "?ny < 9007199254740992" by (rule d(3))
      with nn show ?thesis by linarith
    qed
  qed
  with le show ?thesis by blast
qed

lemma round_mag_mono_diff:
  assumes x: "0 < x" and y: "0 < y" and "x \<le> y" "round_mag y = Some s" and lt: "quantum x < quantum y"
  shows "\<exists>r. round_mag x = Some r \<and> r \<le> s"
proof -
  let ?nx = "rne (scaled x)" and ?qx = "quantum x"
  let ?ny = "rne (scaled y)" and ?qy = "quantum y"
  note d = round_mag_SomeD[OF y assms(4)]
  have yn: "- 1074 < ?qy" using quantum_ge[of x] lt by linarith
  have "(of_int ?nx :: rat) \<le> of_int 9007199254740992"
    using rne_scaled_upper[OF x] by (simp only: of_int_le_iff)
  then have "of_int ?nx * 2 powi ?qx \<le> (of_int 9007199254740992 :: rat) * 2 powi ?qx"
    by (rule mult_right_mono) simp
  also have "(of_int 9007199254740992 :: rat) = 2 powi 53" by simp
  also have "2 powi 53 * 2 powi ?qx = (2::rat) powi (53 + ?qx)" by (simp only: powi2_add)
  also have "\<dots> \<le> 2 powi (52 + ?qy)"
  proof -
    have "53 + ?qx \<le> 52 + ?qy" using lt by linarith
    then show ?thesis by (simp only: powi2_le_iff)
  qed
  also have "\<dots> = 2 powi 52 * 2 powi ?qy" by (simp only: powi2_add)
  also have "(2::rat) powi 52 = of_int 4503599627370496" by simp
  also have "of_int 4503599627370496 * 2 powi ?qy \<le> of_int ?ny * (2::rat) powi ?qy"
  proof (rule mult_right_mono)
    show "(of_int 4503599627370496 :: rat) \<le> of_int ?ny"
      using rne_scaled_lower[OF y yn] by (simp only: of_int_le_iff)
  qed simp
  finally have le: "(of_int ?nx :: rat) * 2 powi ?qx \<le> s" by (simp only: d(1))
  have "round_mag x = Some (of_int ?nx * 2 powi ?qx)"
  proof (rule round_mag_SomeI[OF x])
    show "?qx \<le> 971" using d(2) lt by linarith
    show "?nx < 9007199254740992" if "?qx = 971"
      using d(2) lt that by linarith
  qed
  with le show ?thesis by blast
qed

lemma round_mag_mono:
  assumes "0 \<le> x" "x \<le> y" "round_mag y = Some s"
  shows "\<exists>r. round_mag x = Some r \<and> r \<le> s"
proof (cases "x = 0")
  case True
  have "0 \<le> y" using assms(1,2) by linarith
  then have "0 \<le> s" using assms(3) by (rule round_mag_nonneg)
  moreover have "round_mag x = Some 0" by (simp add: True round_mag_def)
  ultimately show ?thesis by blast
next
  case False
  with assms have x: "0 < x" and y: "0 < y" by simp_all
  have "quantum x \<le> quantum y" using x assms(2) by (rule quantum_mono)
  then consider "quantum x = quantum y" | "quantum x < quantum y" by linarith
  then show ?thesis
  proof cases
    case 1
    show ?thesis by (rule round_mag_mono_same[OF x y assms(2,3) 1])
  next
    case 2
    show ?thesis by (rule round_mag_mono_diff[OF x y assms(2,3) 2])
  qed
qed

lemma round_mag_ge_repr:
  assumes "0 \<le> t" "t \<le> x" "round_mag t = Some t" "round_mag x = Some r"
  shows "t \<le> r"
proof -
  from round_mag_mono[OF assms(1,2,4)] obtain r' where "round_mag t = Some r'" "r' \<le> r" by blast
  with assms(3) show ?thesis by simp
qed

lemma round_mag_overflow:
  assumes "2 powi 1024 \<le> x"
  shows "round_mag x = None"
proof -
  have x: "0 < x" by (rule less_le_trans[OF _ assms]) simp
  have "(2::rat) powi 1024 < 2 powi (flog2 x + 1)"
    by (rule le_less_trans[OF assms flog2_bounds(2)[OF x]])
  then have "1024 < flog2 x + 1" by (simp only: powi2_less_iff)
  then have "971 < quantum x" by (simp add: quantum_def)
  then show ?thesis by (simp only: round_mag_pos[OF x] simp_thms if_True)
qed

lemma round_mag_0 [simp]: "round_mag 0 = Some 0"
  by (simp add: round_mag_def)

lemma round_f64_0 [simp]: "round_f64 s 0 = Finite s 0"
  by (simp add: round_f64_def)

section \<open>Python operations\<close>

lemma and_then_Inr_iff: "and_then m f = Inr y \<longleftrightarrow> (\<exists>x. m = Inr x \<and> f x = Inr y)"
  by (cases m) auto

lemma and_then_Inl_iff: "and_then m f = Inl e \<longleftrightarrow> m = Inl e \<or> (\<exists>x. m = Inr x \<and> f x = Inl e)"
  by (cases m) auto

lemma py_pow2_PyFloat:
  "py_pow2 (PyFloat a) = (if square_overflows a then Inl OverflowError else Inr (PyFloat (fmul a a)))"
  by (simp add: py_pow2_def)

lemma py_pow2_NpFloat: "py_pow2 (NpFloat a) = Inr (NpFloat (fmul a a))"
  by (simp add: py_pow2_def)

lemma py_div_PyFloat:
  "py_div (PyFloat a) (PyFloat b) = (if is_zero b then Inl ZeroDivisionError else Inr (PyFloat (fdiv a b)))"
  by (simp add: py_div_def)

lemma py_arith_PyFloat:
  "py_add (PyFloat a) (PyFloat b) = PyFloat (fadd a b)"
  "py_sub (PyFloat a) (PyFloat b) = PyFloat (fsub a b)"
  "py_mul (PyFloat a) (PyFloat b) = PyFloat (fmul a b)"
  by (simp_all add: py_add_def py_sub_def py_mul_def mk_def)

lemma py_float_eq: "py_float q = PyFloat (f64_of_rat q)" by (simp add: py_float_def)
lemma py_int_eq: "py_int n = PyFloat (f64_of_rat (of_int n))" by (simp add: py_int_def)

lemma square_overflows_big: "square_overflows (Finite False (2 powi 600))"
proof -
  have "(2::rat) powi 600 * 2 powi 600 = 2 powi 1200"
    by (simp only: powi2_add[symmetric] arith_simps)
  moreover have "(2::rat) powi 1024 \<le> 2 powi 1200" by (simp only: powi2_le_iff arith_simps)
  ultimately have "round_mag ((2::rat) powi 600 * 2 powi 600) = None"
    by (simp only: round_mag_overflow)
  then show ?thesis by (simp add: square_overflows_def round_f64_def del: power_int_numeral)
qed

lemma fsub_zero:
  assumes "is_f64 a" "\<not> is_nan a"
  shows "feq (fsub a (Finite t 0)) a"
proof (cases a)
  case (Finite s m)
  with assms have m: "0 \<le> m" "round_mag m = Some m" by simp_all
  show ?thesis
  proof (cases "m = 0")
    case True
    then show ?thesis by (simp add: Finite fsub_def)
  next
    case False
    with m have "0 < m" by simp
    then show ?thesis using m(2)
      by (simp add: Finite fsub_def f64_of_rat_def round_f64_def)
  qed
next
  case (Infinity s)
  then show ?thesis by (simp add: fsub_def)
next
  case NaN
  with assms show ?thesis by simp
qed

lemma val_mk [simp]: "val (mk b a) = a"
  by (simp add: mk_def)

lemma val_py_arith [simp]:
  "val (py_add a b) = fadd (val a) (val b)"
  "val (py_sub a b) = fsub (val a) (val b)"
  "val (py_mul a b) = fmul (val a) (val b)"
  by (simp_all add: py_add_def py_sub_def py_mul_def)

lemma is_np_mk [simp]: "is_np (mk b a) = b"
  by (simp add: mk_def)

lemma is_np_py_arith [simp]:
  "is_np (py_add a b) = (is_np a \<or> is_np b)"
  "is_np (py_sub a b) = (is_np a \<or> is_np b)"
  "is_np (py_mul a b) = (is_np a \<or> is_np b)"
  "is_np (py_float q) = False"
  "is_np (py_int n) = False"
  by (simp_all add: py_add_def py_sub_def py_mul_def py_float_def py_int_def)

lemma py_pow2_cases:
  "py_pow2 V = (if \<not> is_np V \<and> square_overflows (val V) then Inl OverflowError
                else Inr (mk (is_np V) (fmul (val V) (val V))))"
  by (cases V) (simp_all add: py_pow2_def mk_def)

lemma py_div_cases:
  "py_div a b = (if \<not> is_np a \<and> \<not> is_np b \<and> is_zero (val b) then Inl ZeroDivisionError
                 else Inr (mk (is_np a \<or> is_np b) (fdiv (val a) (val b))))"
  by (cases a; cases b) (simp_all add: py_div_def mk_def)

lemma temperature_loop_np:
  "\<forall>V \<in> set Vs. is_np V \<Longrightarrow> \<exists>st'. temperature_loop Vs st = Inr st'"
proof (induction Vs arbitrary: st)
  case Nil
  then show ?case by simp
next
  case (Cons V Vs)
  then have np: "is_np V" and rest: "\<forall>V \<in> set Vs. is_np V" by simp_all
  from np show ?case
    by (simp add: total_to_static_temperature_def kinetic_correction_def py_pow2_cases
        py_div_cases Let_def Cons.IH[OF rest])
qed

lemma velocities_np: "\<forall>V \<in> set velocities. is_np V"
  by (auto simp: velocities_def)

lemma rf_one_factor':
  "fmul (fsub (f64_of_rat 1) (Finite False 1)) (f64_of_rat (1 / 2)) = Finite False 0"
  by code_simp

section \<open>The conversion functions\<close>

text \<open>
  C7.  The example scenario: \<open>static_to_total_pressure(1e5, 100, 0.8)\<close> is exactly
  \<open>104000.0\<close>.  The literal \<open>0.8\<close> is the double nearest to \<open>4/5\<close>, which is a little
  above \<open>4/5\<close>; halving it is exact, and the product with \<open>10000\<close> rounds back to
  \<open>4000\<close>.  The velocity \<open>100\<close> is an int in the example: its square is the int
  \<open>10000\<close>, the same number that the float \<open>100.0\<close> gives.
\<close>

theorem static_to_total_pressure_example:
  "static_to_total_pressure (py_float (10 ^ 5)) (py_int 100) (py_float (8 / 10))
     = Inr (PyFloat (Finite False 104000))"
  by code_simp

text \<open>
  C8 (amended).  Each of the three temperature conversions raises \<open>OverflowError\<close>
  exactly when \<open>V\<close> is a builtin float, finite, whose square overflows.  It raises
  \<open>ZeroDivisionError\<close> exactly when the power has not raised, \<open>Cp\<close> is zero and \<open>V\<close> and
  \<open>Cp\<close> (and \<open>rf\<close>, for \<open>measured_to_total_temperature\<close>) are all builtin numbers; this
  is so for every such \<open>V\<close>, zero as well.  In every other case it raises nothing: with a
  \<open>numpy.float64\<close> velocity, which is what the script passes, no exception is raised
  for any \<open>Cp\<close>.  An exception of the call in the loop body is not caught and ends the
  loop with it; the script as written raises none.
\<close>

theorem temperature_conversion_faults:
  "(static_to_total_temperature a V c = Inl e \<longleftrightarrow>
      \<not> is_np V \<and> (square_overflows (val V) \<and> e = OverflowError
        \<or> \<not> square_overflows (val V) \<and> \<not> is_np c \<and> is_zero (val c) \<and> e = ZeroDivisionError))
 \<and> (total_to_static_temperature a V c = Inl e \<longleftrightarrow>
      \<not> is_np V \<and> (square_overflows (val V) \<and> e = OverflowError
        \<or> \<not> square_overflows (val V) \<and> \<not> is_np c \<and> is_zero (val c) \<and> e = ZeroDivisionError))
 \<and> (measured_to_total_temperature a V c r = Inl e \<longleftrightarrow>
      \<not> is_np V \<and> (square_overflows (val V) \<and> e = OverflowError
        \<or> \<not> square_overflows (val V) \<and> \<not> is_np r \<and> \<not> is_np c \<and> is_zero (val c)
            \<and> e = ZeroDivisionError))
 \<and> (total_to_static_temperature T_total V Cp = Inl e \<longrightarrow>
        temperature_loop (V # Vs) st = Inl e)
 \<and> (\<exists>st'. temperature_sensitivity = Inr st')"
proof (intro conjI)
  show "static_to_total_temperature a V c = Inl e \<longleftrightarrow>
      \<not> is_np V \<and> (square_overflows (val V) \<and> e = OverflowError
        \<or> \<not> square_overflows (val V) \<and> \<not> is_np c \<and> is_zero (val c) \<and> e = ZeroDivisionError)"
    by (auto simp: static_to_total_temperature_def py_pow2_cases py_div_cases)
  show "total_to_static_temperature a V c = Inl e \<longleftrightarrow>
      \<not> is_np V \<and> (square_overflows (val V) \<and> e = OverflowError
        \<or> \<not> square_overflows (val V) \<and> \<not> is_np c \<and> is_zero (val c) \<and> e = ZeroDivisionError)"
    by (auto simp: total_to_static_temperature_def py_pow2_cases py_div_cases)
  show "measured_to_total_temperature a V c r = Inl e \<longleftrightarrow>
      \<not> is_np V \<and> (square_overflows (val V) \<and> e = OverflowError
        \<or> \<not> square_overflows (val V) \<and> \<not> is_np r \<and> \<not> is_np c \<and> is_zero (val c)
            \<and> e = ZeroDivisionError)"
    by (auto simp: measured_to_total_temperature_def py_pow2_cases py_div_cases Let_def)
  show "total_to_static_temperature T_total V Cp = Inl e \<longrightarrow>
        temperature_loop (V # Vs) st = Inl e"
    by simp
  show "\<exists>st'. temperature_sensitivity = Inr st'"
    unfolding temperature_sensitivity_def by (rule temperature_loop_np[OF velocities_np])
qed

theorem temperature_conversion_faults_witness:
  "total_to_static_temperature T_total (PyFloat (Finite False (2 powi 600))) Cp = Inl OverflowError
   \<and> temperature_loop [PyFloat (Finite False (2 powi 600))]
        \<lparr>T_measured_values = [], T_static_values = [], T_diff_measured_static = []\<rparr>
      = Inl OverflowError"
proof -
  note t = temperature_conversion_faults[of T_total "PyFloat (Finite False (2 powi 600))" Cp
      OverflowError _ "[]" "\<lparr>T_measured_values = [], T_static_values = [],
        T_diff_measured_static = []\<rparr>"]
  have h: "\<not> is_np (PyFloat (Finite False (2 powi 600)))
     \<and> square_overflows (val (PyFloat (Finite False (2 powi 600))))"
    using square_overflows_big by simp
  from t h have 1: "total_to_static_temperature T_total (PyFloat (Finite False (2 powi 600))) Cp
      = Inl OverflowError" by blast
  with t show ?thesis by blast
qed

text \<open>The claim as stated fails twice.  With \<open>Cp = 0\<close> and the numpy velocity \<open>100.0\<close>
  nothing is raised: the result is \<open>-inf\<close>.  With \<open>Cp = 1.0\<close> and the builtin velocity
  \<open>2.0**600\<close> an error is raised, and it is not a division by zero.\<close>

theorem temperature_faults_counterexample:
  "total_to_static_temperature T_total (NpFloat (Finite False 100)) (py_int 0)
     = Inr (NpFloat (Infinity True))
   \<and> total_to_static_temperature (PyFloat (Finite False 1)) (PyFloat (Finite False (2 powi 600)))
     (PyFloat (Finite False 1)) = Inl OverflowError"
proof
  show "total_to_static_temperature T_total (NpFloat (Finite False 100)) (py_int 0)
     = Inr (NpFloat (Infinity True))"
    by code_simp
  show "total_to_static_temperature (PyFloat (Finite False 1)) (PyFloat (Finite False (2 powi 600)))
     (PyFloat (Finite False 1)) = Inl OverflowError"
    using square_overflows_big
    by (simp add: total_to_static_temperature_def py_pow2_PyFloat del: power_int_numeral)
qed

text \<open>
  C6 (amended).  With \<open>rf = 1\<close> the correction is a zero, and
  \<open>measured_to_total_temperature\<close> returns a value equal to \<open>T_measured\<close> (\<open>==\<close>), for
  every \<open>T_measured\<close> that is not NaN, every finite \<open>V\<close> whose square is finite and
  every \<open>Cp\<close> that is neither zero nor NaN, builtin or numpy.
\<close>

theorem measured_to_total_temperature_rf_one:
  assumes "is_f64 (val Tm)" "\<not> is_nan (val Tm)"
    and "is_finite (val V)" "\<not> square_overflows (val V)"
    and "\<not> is_zero (val c)" "\<not> is_nan (val c)"
    and "val r = Finite False 1"
  shows "\<exists>y. measured_to_total_temperature Tm V c r = Inr y \<and> py_eq y Tm"
proof -
  from assms(3) obtain s m where V: "val V = Finite s m" by (cases "val V") auto
  from assms(3,4) have "is_finite (fmul (val V) (val V))" by (simp add: square_overflows_def)
  then obtain v2 where V2: "fmul (val V) (val V) = Finite False v2"
    by (cases "round_mag (m * m)") (auto simp: V round_f64_def)
  from assms(5,6) obtain t where q: "fdiv (Finite False 0) (val c) = Finite t 0"
    by (cases "val c") auto
  obtain y where y: "measured_to_total_temperature Tm V c r = Inr y"
    and vy: "val y = fsub (val Tm) (Finite t 0)"
    using assms(4,5)
    by (simp add: measured_to_total_temperature_def py_pow2_cases py_div_cases
        py_float_def py_int_def Let_def rf_one_factor' V2 q assms(7))
  from fsub_zero[OF assms(1,2)] vy have "py_eq y Tm" by (simp add: py_eq_def)
  with y show ?thesis by blast
qed

theorem measured_to_total_temperature_rf_one_witness:
  "\<exists>y. measured_to_total_temperature (py_float 300) (NpFloat (Finite False 10)) (py_int 2080)
          (py_float 1) = Inr y \<and> py_eq y (py_float 300)"
proof -
  have "is_f64 (val (py_float 300))" "\<not> is_nan (val (py_float 300))"
    "is_finite (val (NpFloat (Finite False 10)))"
    "\<not> square_overflows (val (NpFloat (Finite False 10)))"
    "\<not> is_zero (val (py_int 2080))" "\<not> is_nan (val (py_int 2080))"
    "val (py_float 1) = Finite False 1"
    by code_simp+
  then show ?thesis by (rule measured_to_total_temperature_rf_one)
qed

text \<open>The claim as stated fails for \<open>Cp = 0\<close>: the division raises.\<close>

theorem measured_to_total_temperature_rf_one_counterexample:
  "measured_to_total_temperature (py_float 300) (py_float 10) (py_float 0) (py_float 1)
     = Inl ZeroDivisionError"
  by code_simp

section \<open>Round trips\<close>

lemma f64_of_rat_error:
  assumes "f64_of_rat q = Finite u k"
  shows "\<bar>valof (Finite u k) - q\<bar> \<le> eps * \<bar>q\<bar> + eta"
proof -
  from assms have k: "round_mag \<bar>q\<bar> = Some k" and u: "u = (q < 0)"
    by (auto simp: f64_of_rat_def round_f64_def split: option.splits)
  have "\<bar>k - \<bar>q\<bar>\<bar> \<le> eps * \<bar>q\<bar> + eta"
    by (rule round_mag_rel_error[OF _ k]) simp
  moreover have "\<bar>valof (Finite u k) - q\<bar> = \<bar>k - \<bar>q\<bar>\<bar>"
    by (auto simp: u abs_if)
  ultimately show ?thesis by simp
qed

lemma fadd_finiteD: "is_finite (fadd a b) \<Longrightarrow> is_finite a \<and> is_finite b"
  by (cases a; cases b) (auto split: if_splits)

lemma fneg_finite [simp]: "is_finite (fneg a) = is_finite a"
  by (cases a) auto

lemma valof_fneg [simp]: "valof (fneg a) = - valof a"
  by (cases a) auto

lemma fadd_error:
  assumes "is_finite (fadd a b)"
  shows "\<bar>valof (fadd a b) - (valof a + valof b)\<bar> \<le> eps * \<bar>valof a + valof b\<bar> + eta"
proof -
  from fadd_finiteD[OF assms] obtain s m t n where a: "a = Finite s m" and b: "b = Finite t n"
    by (cases a; cases b) auto
  let ?q = "valof a + valof b"
  show ?thesis
  proof (cases "?q = 0")
    case True
    then have "valof (fadd a b) = 0" by (simp add: a b)
    with True eta_pos show ?thesis by (simp add: less_imp_le)
  next
    case False
    then have f: "fadd a b = f64_of_rat ?q" by (simp add: a b Let_def)
    from assms obtain u k where uk: "f64_of_rat ?q = Finite u k"
      unfolding f by (cases "f64_of_rat ?q") auto
    from f64_of_rat_error[OF uk] show ?thesis by (simp only: f uk)
  qed
qed

lemma roundtrip_chain:
  fixes p q S A G H :: rat
  assumes "p \<le> S + H" "G \<le> q + A + H" "q \<le> 2 * p" "0 \<le> A" "0 \<le> H"
  shows "G \<le> 2 * A + 2 * S + 4 * H"
  using assms by linarith

lemma roundtrip_arith:
  fixes e S A g h :: rat
  assumes "e \<le> S / 9007199254740992 + e / 9007199254740992 + h"
    and "g \<le> e + A / 9007199254740992 + e / 9007199254740992 + h"
    and "0 \<le> e" "0 \<le> A" "0 \<le> h"
  shows "g \<le> (A + S) / 4503599627370496 + 4 * h"
proof -
  have a: "9007199254740991 * e \<le> S + 9007199254740992 * h"
    using assms(1) by (simp add: field_simps)
  have b: "9007199254740992 * g \<le> 9007199254740993 * e + A + 9007199254740992 * h"
    using assms(2) by (simp add: field_simps)
  have c: "9007199254740993 * e \<le> 2 * (9007199254740991 * e)" using assms(3) by simp
  have "9007199254740992 * g \<le> 2 * A + 2 * S + 4 * (9007199254740992 * h)"
    by (rule roundtrip_chain[OF a b c assms(4)]) (use assms(5) in simp)
  then show ?thesis by (simp add: field_simps)
qed

lemma four_eta: "4 * eta = 2 powi (- 1073)"
proof -
  have "(2::rat) powi (- 1073) = 2 powi 2 * 2 powi (- 1075)"
    by (simp only: powi2_add[symmetric] arith_simps)
  then show ?thesis by (simp add: eta_def del: power_int_numeral_neg_numeral)
qed

lemma add_sub_roundtrip:
  assumes "is_finite (fadd a d)" "is_finite (fsub (fadd a d) d)"
  shows "\<bar>valof (fsub (fadd a d) d) - valof a\<bar>
           \<le> (\<bar>valof a\<bar> + \<bar>valof (fadd a d)\<bar>) / 2 ^ 52 + 2 powi (- 1073)"
proof -
  let ?A = "valof a" and ?D = "valof d" and ?S = "valof (fadd a d)"
  let ?R = "valof (fsub (fadd a d) d)"
  define e where "e = \<bar>?S - (?A + ?D)\<bar>"
  have 1: "e \<le> eps * \<bar>?A + ?D\<bar> + eta" unfolding e_def by (rule fadd_error[OF assms(1)])
  have "\<bar>?A + ?D\<bar> \<le> \<bar>?S\<bar> + e" unfolding e_def by linarith
  then have "eps * \<bar>?A + ?D\<bar> \<le> eps * (\<bar>?S\<bar> + e)"
    by (intro mult_left_mono) (simp_all add: eps_def)
  with 1 have h1: "e \<le> \<bar>?S\<bar> / 9007199254740992 + e / 9007199254740992 + eta"
    by (simp add: eps_def algebra_simps)
  have 2: "\<bar>?R - (?S + - ?D)\<bar> \<le> eps * \<bar>?S + - ?D\<bar> + eta"
    using fadd_error[of "fadd a d" "fneg d"] assms(2) by (simp add: fsub_def)
  have "\<bar>?S + - ?D\<bar> \<le> \<bar>?A\<bar> + e" unfolding e_def by linarith
  then have "eps * \<bar>?S + - ?D\<bar> \<le> eps * (\<bar>?A\<bar> + e)"
    by (intro mult_left_mono) (simp_all add: eps_def)
  with 2 have "\<bar>?R - (?S + - ?D)\<bar> \<le> \<bar>?A\<bar> / 9007199254740992 + e / 9007199254740992 + eta"
    by (simp add: eps_def algebra_simps)
  moreover have "\<bar>?R - ?A\<bar> \<le> e + \<bar>?R - (?S + - ?D)\<bar>" unfolding e_def by linarith
  ultimately have h2: "\<bar>?R - ?A\<bar> \<le> e + \<bar>?A\<bar> / 9007199254740992 + e / 9007199254740992 + eta"
    by linarith
  have "\<bar>?R - ?A\<bar> \<le> (\<bar>?A\<bar> + \<bar>?S\<bar>) / 4503599627370496 + 4 * eta"
    by (rule roundtrip_arith[OF h1 h2]) (simp_all add: e_def less_imp_le[OF eta_pos])
  then show ?thesis by (simp only: four_eta) simp
qed

lemma pressure_example_total:
  "static_to_total_pressure (py_float (10 ^ 5)) (py_float 296) (py_float (74 / 100))
     = Inr (PyFloat (Finite False (2274922543217377 / 17179869184)))"
  by code_simp

lemma pressure_example_static:
  "total_to_static_pressure (PyFloat (Finite False (2274922543217377 / 17179869184)))
     (py_float 296) (py_float (74 / 100))
     = Inr (PyFloat (Finite False (6871947673599999 / 68719476736)))"
  by code_simp

lemma pressure_example_differs:
  "\<not> py_eq (PyFloat (Finite False (6871947673599999 / 68719476736))) (py_float (10 ^ 5))"
  by code_simp

lemma temperature_example_total:
  "static_to_total_temperature (py_float 255) (py_float 100) (py_float 2080)
     = Inr (PyFloat (Finite False (4528296350086695 / 17592186044416)))"
  by code_simp

lemma temperature_example_static:
  "total_to_static_temperature (PyFloat (Finite False (4528296350086695 / 17592186044416)))
     (py_float 100) (py_float 2080)
     = Inr (PyFloat (Finite False (8972014882652159 / 35184372088832)))"
  by code_simp

lemma temperature_example_differs:
  "\<not> py_eq (PyFloat (Finite False (8972014882652159 / 35184372088832))) (py_float 255)"
  by code_simp

text \<open>
  C1 (amended).  \<open>total_to_static_pressure\<close> undoes \<open>static_to_total_pressure\<close> up to the
  rounding of the two float operations: whenever both calls return finite numbers, the
  recovered static pressure differs from \<open>P\<close> by at most
  \<open>2^-52 * (|P| + |P_total|) + 2^-1073\<close>.  This holds for every velocity and density.
\<close>

theorem pressure_round_trip_tolerance:
  assumes "static_to_total_pressure P V rho = Inr Pt"
    and "total_to_static_pressure Pt V rho = Inr Ps"
    and "is_finite (val Pt)" "is_finite (val Ps)"
  shows "\<bar>valof (val Ps) - valof (val P)\<bar>
           \<le> (\<bar>valof (val P)\<bar> + \<bar>valof (val Pt)\<bar>) / 2 ^ 52 + 2 powi (- 1073)"
proof -
  from assms(1) obtain V2 where V2: "py_pow2 V = Inr V2"
    and Pt: "Pt = py_add P (py_mul (py_mul (py_float (1 / 2)) rho) V2)"
    by (auto simp: static_to_total_pressure_def Let_def and_then_Inr_iff)
  from assms(2) have Ps: "Ps = py_sub Pt (py_mul (py_mul (py_float (1 / 2)) rho) V2)"
    by (auto simp: total_to_static_pressure_def Let_def V2)
  define d where "d = val (py_mul (py_mul (py_float (1 / 2)) rho) V2)"
  have 1: "val Pt = fadd (val P) d" by (simp add: Pt d_def)
  have 2: "val Ps = fsub (fadd (val P) d) d" by (simp add: Ps Pt d_def)
  from assms(3,4) have "is_finite (fadd (val P) d)" "is_finite (fsub (fadd (val P) d) d)"
    by (simp_all only: 1 2)
  from add_sub_roundtrip[OF this] show ?thesis by (simp only: 1 2)
qed

theorem pressure_round_trip_tolerance_witness:
  "\<bar>valof (Finite False (6871947673599999 / 68719476736)) - valof (val (py_float (10 ^ 5)))\<bar>
     \<le> (\<bar>valof (val (py_float (10 ^ 5)))\<bar> + \<bar>valof (Finite False (2274922543217377 / 17179869184))\<bar>)
          / 2 ^ 52 + 2 powi (- 1073)"
proof -
  have "is_finite (val (PyFloat (Finite False (2274922543217377 / 17179869184))))"
    "is_finite (val (PyFloat (Finite False (6871947673599999 / 68719476736))))"
    by simp_all
  from pressure_round_trip_tolerance[OF pressure_example_total pressure_example_static this]
  show ?thesis by (simp only: val.simps)
qed

text \<open>The round trip is not exact: for \<open>P = 1e5\<close>, \<open>V = 296.0\<close> and \<open>rho = 0.74\<close> it
  returns \<open>99999.99999999999\<close>.\<close>

theorem pressure_round_trip_counterexample:
  "static_to_total_pressure (py_float (10 ^ 5)) (py_float 296) (py_float (74 / 100))
     = Inr (PyFloat (Finite False (2274922543217377 / 17179869184)))
   \<and> total_to_static_pressure (PyFloat (Finite False (2274922543217377 / 17179869184)))
     (py_float 296) (py_float (74 / 100))
     = Inr (PyFloat (Finite False (6871947673599999 / 68719476736)))
   \<and> \<not> py_eq (PyFloat (Finite False (6871947673599999 / 68719476736))) (py_float (10 ^ 5))"
  using pressure_example_total pressure_example_static pressure_example_differs by blast

text \<open>
  C2 (amended).  \<open>total_to_static_temperature\<close> undoes \<open>static_to_total_temperature\<close> up
  to the rounding of the two float operations: whenever both calls return finite numbers,
  the recovered static temperature differs from \<open>T\<close> by at most
  \<open>2^-52 * (|T| + |T_total|) + 2^-1073\<close>.
\<close>

theorem temperature_round_trip_tolerance:
  assumes "static_to_total_temperature Ts V c = Inr Tt"
    and "total_to_static_temperature Tt V c = Inr Tr"
    and "is_finite (val Tt)" "is_finite (val Tr)"
  shows "\<bar>valof (val Tr) - valof (val Ts)\<bar>
           \<le> (\<bar>valof (val Ts)\<bar> + \<bar>valof (val Tt)\<bar>) / 2 ^ 52 + 2 powi (- 1073)"
proof -
  from assms(1) obtain V2 k where V2: "py_pow2 V = Inr V2"
    and k: "py_div (py_mul (py_float (1 / 2)) V2) c = Inr k"
    and Tt: "Tt = py_add Ts k"
    by (auto simp: static_to_total_temperature_def and_then_Inr_iff)
  from assms(2) have Tr: "Tr = py_sub Tt k"
    by (auto simp: total_to_static_temperature_def V2 k)
  have 1: "val Tt = fadd (val Ts) (val k)" by (simp add: Tt)
  have 2: "val Tr = fsub (fadd (val Ts) (val k)) (val k)" by (simp add: Tr Tt)
  from assms(3,4) have "is_finite (fadd (val Ts) (val k))"
    "is_finite (fsub (fadd (val Ts) (val k)) (val k))"
    by (simp_all only: 1 2)
  from add_sub_roundtrip[OF this] show ?thesis by (simp only: 1 2)
qed

theorem temperature_round_trip_tolerance_witness:
  "\<bar>valof (Finite False (8972014882652159 / 35184372088832)) - valof (val (py_float 255))\<bar>
     \<le> (\<bar>valof (val (py_float 255))\<bar> + \<bar>valof (Finite False (4528296350086695 / 17592186044416))\<bar>)
          / 2 ^ 52 + 2 powi (- 1073)"
proof -
  have "is_finite (val (PyFloat (Finite False (4528296350086695 / 17592186044416))))"
    "is_finite (val (PyFloat (Finite False (8972014882652159 / 35184372088832))))"
    by simp_all
  from temperature_round_trip_tolerance[OF temperature_example_total
      temperature_example_static this]
  show ?thesis by (simp only: val.simps)
qed

text \<open>The round trip is not exact: for \<open>T = 255.0\<close>, \<open>V = 100.0\<close> and \<open>Cp = 2080.0\<close> it
  returns \<open>254.99999999999997\<close>.\<close>

theorem temperature_round_trip_counterexample:
  "static_to_total_temperature (py_float 255) (py_float 100) (py_float 2080)
     = Inr (PyFloat (Finite False (4528296350086695 / 17592186044416)))
   \<and> total_to_static_temperature (PyFloat (Finite False (4528296350086695 / 17592186044416)))
     (py_float 100) (py_float 2080)
     = Inr (PyFloat (Finite False (8972014882652159 / 35184372088832)))
   \<and> \<not> py_eq (PyFloat (Finite False (8972014882652159 / 35184372088832))) (py_float 255)"
  using temperature_example_total temperature_example_static temperature_example_differs
  by blast

section \<open>Static temperature against total temperature\<close>








lemma f64_of_rat_half: "f64_of_rat (1 / 2) = Finite False (1 / 2)"
  by code_simp



lemma py_float_0: "f64_of_rat 0 = Finite False 0"
  by (simp add: f64_of_rat_def)







section \<open>The pressure sweep\<close>

lemma relative_difference_of_np:
  assumes "is_np V"
  shows "\<exists>y. relative_difference_of rho V = Inr y \<and> is_np y"
  using assms
  by (simp add: relative_difference_of_def static_to_total_pressure_def py_pow2_cases
      py_div_cases Let_def)

lemma pressure_loop_np:
  assumes "\<forall>V \<in> set Vs. is_np V" "gas_properties ''rho'' = Some rho"
  shows "\<exists>st'. pressure_loop gas_properties Vs st = Inr st'
     \<and> P_static_values st' = P_static_values st @ replicate (length Vs) P_static
     \<and> length (P_relative_diff_total_static st')
          = length (P_relative_diff_total_static st) + length Vs
     \<and> take (length (P_relative_diff_total_static st)) (P_relative_diff_total_static st')
          = P_relative_diff_total_static st
     \<and> (\<forall>i < length Vs. relative_difference_of rho (Vs ! i)
          = Inr (P_relative_diff_total_static st' ! (length (P_relative_diff_total_static st) + i)))"
  using assms(1)
proof (induction Vs arbitrary: st)
  case Nil
  then show ?case by simp
next
  case (Cons V Vs)
  then have np: "is_np V" and rest: "\<forall>V \<in> set Vs. is_np V" by simp_all
  from relative_difference_of_np[OF np] obtain y where y: "relative_difference_of rho V = Inr y"
    by blast
  let ?st = "\<lparr>P_static_values = P_static_values st @ [P_static],
             P_relative_diff_total_static = P_relative_diff_total_static st @ [y]\<rparr>"
  let ?n = "length (P_relative_diff_total_static st)"
  from Cons.IH[OF rest, of ?st] obtain st' where
    l: "pressure_loop gas_properties Vs ?st = Inr st'"
    and ps: "P_static_values st' = P_static_values ?st @ replicate (length Vs) P_static"
    and len: "length (P_relative_diff_total_static st') = Suc ?n + length Vs"
    and tk: "take (Suc ?n) (P_relative_diff_total_static st') = P_relative_diff_total_static st @ [y]"
    and el: "\<forall>i < length Vs. relative_difference_of rho (Vs ! i)
          = Inr (P_relative_diff_total_static st' ! (Suc ?n + i))"
    by auto
  have step: "pressure_loop gas_properties (V # Vs) st = Inr st'"
    by (simp add: assms(2) y l)
  have tk': "take ?n (P_relative_diff_total_static st') = P_relative_diff_total_static st"
  proof -
    have "take ?n (take (Suc ?n) (P_relative_diff_total_static st'))
        = take ?n (P_relative_diff_total_static st @ [y])" by (simp only: tk)
    then show ?thesis by (simp add: min_def)
  qed
  have at: "P_relative_diff_total_static st' ! ?n = y"
  proof -
    have "take (Suc ?n) (P_relative_diff_total_static st') ! ?n = (P_relative_diff_total_static st @ [y]) ! ?n"
      by (simp only: tk)
    then show ?thesis by simp
  qed
  have "\<forall>i < length (V # Vs). relative_difference_of rho ((V # Vs) ! i)
          = Inr (P_relative_diff_total_static st' ! (?n + i))"
  proof (intro allI impI)
    fix i assume "i < length (V # Vs)"
    then show "relative_difference_of rho ((V # Vs) ! i)
          = Inr (P_relative_diff_total_static st' ! (?n + i))"
      using el y at by (cases i) auto
  qed
  with step ps len tk' show ?case by (auto simp: replicate_append_same)
qed

lemma length_np_linspace: "length (np_linspace a b n) = n"
  by (simp add: np_linspace_def Let_def)

lemma length_velocities: "length velocities = 100"
  by (simp add: velocities_def length_np_linspace)

text \<open>
  C4.  When the property lookup, called once with the composition, the static pressure
  and the temperature, returns a dictionary with a density \<open>rho\<close>, the script ends with a
  result series as long as the velocity series, and its \<open>i\<close>-th element is
  \<open>100 * (P_total - P_static) / P_static\<close>, where \<open>P_total\<close> comes from
  \<open>static_to_total_pressure\<close> applied to the static pressure, the \<open>i\<close>-th velocity and
  that one density.  The function takes pascals: the static pressure goes in as
  \<open>P_static*10**5\<close> and the total pressure is taken back to bara by \<open>/10**5\<close>.
\<close>

theorem pressure_sweep_elements:
  assumes "calculate_from_PT composition P_static T = Inr gas_properties"
    and "gas_properties ''rho'' = Some rho"
  shows "\<exists>st. pressure_sensitivity calculate_from_PT = Inr st
     \<and> length (P_relative_diff_total_static st) = length velocities
     \<and> (\<forall>i < length velocities. \<exists>Pt P_total.
           static_to_total_pressure (py_mul P_static (py_int (10 ^ 5))) (velocities ! i) rho = Inr Pt
         \<and> py_div Pt (py_int (10 ^ 5)) = Inr P_total
         \<and> py_div (py_mul (py_int 100) (py_sub P_total P_static)) P_static
              = Inr (P_relative_diff_total_static st ! i))"
proof -
  let ?st0 = "\<lparr>P_static_values = [], P_relative_diff_total_static = []\<rparr>"
  from pressure_loop_np[where Vs=velocities and gas_properties=gas_properties and rho=rho
      and st="?st0", OF velocities_np assms(2)] obtain st where
    l: "pressure_loop gas_properties velocities ?st0 = Inr st"
    and len: "length (P_relative_diff_total_static st) = length velocities"
    and el: "\<forall>i < length velocities. relative_difference_of rho (velocities ! i)
          = Inr (P_relative_diff_total_static st ! i)"
    by auto
  have run: "pressure_sensitivity calculate_from_PT = Inr st"
    by (simp add: pressure_sensitivity_def assms(1) l)
  have "\<exists>Pt P_total.
           static_to_total_pressure (py_mul P_static (py_int (10 ^ 5))) (velocities ! i) rho = Inr Pt
         \<and> py_div Pt (py_int (10 ^ 5)) = Inr P_total
         \<and> py_div (py_mul (py_int 100) (py_sub P_total P_static)) P_static
              = Inr (P_relative_diff_total_static st ! i)" if "i < length velocities" for i
  proof -
    from el that have "relative_difference_of rho (velocities ! i)
          = Inr (P_relative_diff_total_static st ! i)" by blast
    then show ?thesis
      unfolding relative_difference_of_def and_then_Inr_iff by blast
  qed
  with run len show ?thesis by blast
qed

theorem pressure_sweep_elements_witness:
  "\<exists>st. pressure_sensitivity (\<lambda>c p t. Inr [''rho'' \<mapsto> py_float (3 / 4)]) = Inr st
     \<and> length (P_relative_diff_total_static st) = length velocities
     \<and> (\<exists>Pt P_total.
           static_to_total_pressure (py_mul P_static (py_int (10 ^ 5))) (velocities ! 0)
             (py_float (3 / 4)) = Inr Pt
         \<and> py_div Pt (py_int (10 ^ 5)) = Inr P_total
         \<and> py_div (py_mul (py_int 100) (py_sub P_total P_static)) P_static
              = Inr (P_relative_diff_total_static st ! 0))"
proof -
  have h1: "(\<lambda>c p t. Inr [''rho'' \<mapsto> py_float (3 / 4)]) composition P_static T
      = (Inr [''rho'' \<mapsto> py_float (3 / 4)] :: pyerror + gas_properties)" by simp
  have h2: "[''rho'' \<mapsto> py_float (3 / 4)] ''rho'' = Some (py_float (3 / 4))" by simp
  have h3: "0 < length velocities" by (simp add: length_velocities)
  from pressure_sweep_elements[OF h1 h2] h3 show ?thesis by blast
qed

section \<open>The velocity sweep\<close>

lemma f64_of_rat_nat:
  assumes "n < 9007199254740992"
  shows "f64_of_rat (of_nat n) = Finite False (of_nat n)"
proof -
  have "round_mag (of_int (int n) * 2 powi 0) = Some (of_int (int n) * 2 powi 0)"
    by (rule round_mag_repr) (use assms in simp_all)
  then have "round_mag (of_nat n) = Some (of_nat n)" by simp
  then show ?thesis by (simp add: f64_of_rat_def round_f64_def)
qed

lemma linspace_step:
  "fdiv (fsub (f64_of_rat 300) (f64_of_rat 0)) (f64_of_rat 99)
     = Finite False (3411817899523103 / 1125899906842624)"
  by code_simp

lemma f64_of_rat_300: "f64_of_rat 300 = Finite False 300"
  using f64_of_rat_nat[of 300] by simp

lemma round_mag_300: "round_mag 300 = Some 300"
  using f64_of_rat_300 by (simp add: f64_of_rat_def round_f64_def split: option.splits)

lemma velocities_nth:
  assumes "i < 99"
  shows "velocities ! i = NpFloat (fadd (fmul (Finite False (of_nat i))
           (Finite False (3411817899523103 / 1125899906842624))) (Finite False 0))"
proof -
  have i: "f64_of_rat (of_nat i) = Finite False (of_nat i)"
    by (rule f64_of_rat_nat) (use assms in simp)
  have "np_linspace (f64_of_rat 0) (f64_of_rat 300) 100 ! i
      = fadd (fmul (f64_of_rat (of_nat i)) (Finite False (3411817899523103 / 1125899906842624)))
          (f64_of_rat 0)"
    using assms by (simp add: np_linspace_def Let_def linspace_step)
  then show ?thesis using assms
    by (simp add: velocities_def length_np_linspace i py_float_0)
qed

lemma velocities_last: "velocities ! 99 = NpFloat (Finite False 300)"
  by (simp add: velocities_def np_linspace_def Let_def f64_of_rat_300)

lemma sample_rounding:
  assumes "i < 99"
  shows "\<exists>r. velocities ! i = NpFloat (Finite False r)
     \<and> round_mag (of_nat i * (3411817899523103 / 1125899906842624)) = Some r
     \<and> 0 \<le> r \<and> r \<le> 300"
proof -
  let ?s = "3411817899523103 / 1125899906842624 :: rat"
  let ?x = "of_nat i * ?s"
  have x0: "0 \<le> ?x" by simp
  have "(of_nat i :: rat) \<le> 98" using assms by simp
  then have "?x \<le> 98 * ?s" by (intro mult_right_mono) simp_all
  also have "\<dots> \<le> 300" by simp
  finally have x1: "?x \<le> 300" .
  from round_mag_mono[OF x0 x1 round_mag_300] obtain r where
    r: "round_mag ?x = Some r" "r \<le> 300" by blast
  have r0: "0 \<le> r" by (rule round_mag_nonneg[OF x0 r(1)])
  have rr: "round_mag r = Some r" by (rule round_mag_idem[OF x0 r(1)])
  have fa: "fadd (Finite False r) (Finite False 0) = Finite False r"
    using r0 rr by (simp add: f64_of_rat_def round_f64_def Let_def)
  have fm: "fmul (Finite False (of_nat i)) (Finite False ?s) = Finite False r"
    unfolding fmul.simps round_f64_def r(1) by simp
  have "velocities ! i = NpFloat (Finite False r)"
    unfolding velocities_nth[OF assms] fm fa ..
  with r r0 show ?thesis by blast
qed

lemma eta_small: "eta \<le> 1 / 2 ^ 60"
proof -
  have "eta \<le> 2 powi (- 60)" unfolding eta_def by (simp only: powi2_le_iff)
  then show ?thesis by (simp add: power_int_minus_divide)
qed

lemma sample_error_arith:
  fixes r x h :: rat
  assumes "r - x * (3411817899523103 / 1125899906842624)
             \<le> x * (3411817899523103 / 1125899906842624) / 9007199254740992 + h"
    and "x * (3411817899523103 / 1125899906842624) - r
             \<le> x * (3411817899523103 / 1125899906842624) / 9007199254740992 + h"
    and "0 \<le> x" "x \<le> 98" "h \<le> 1 / 1152921504606846976"
  shows "\<bar>r - 300 * x / 99\<bar> \<le> 1 / 17592186044416"
proof -
  have 1: "r - 300 * x / 99 \<le> 1 / 17592186044416" using assms by linarith
  have 2: "- (r - 300 * x / 99) \<le> 1 / 17592186044416" using assms by linarith
  from 1 2 show ?thesis by (rule abs_leI)
qed

lemma sample_error:
  assumes "i < 99"
  shows "\<exists>r. velocities ! i = NpFloat (Finite False r)
     \<and> \<bar>r - 300 * of_nat i / 99\<bar> \<le> 1 / 2 ^ 44"
proof -
  let ?s = "3411817899523103 / 1125899906842624 :: rat"
  let ?x = "of_nat i :: rat"
  from sample_rounding[OF assms] obtain r where v: "velocities ! i = NpFloat (Finite False r)"
    and r: "round_mag (?x * ?s) = Some r" by blast
  have "\<bar>r - ?x * ?s\<bar> \<le> eps * (?x * ?s) + eta"
    by (rule round_mag_rel_error[OF _ r]) simp
  then have e: "r - ?x * ?s \<le> ?x * ?s / 9007199254740992 + eta"
    "?x * ?s - r \<le> ?x * ?s / 9007199254740992 + eta"
    by (simp_all add: eps_def abs_le_iff)
  have x: "0 \<le> ?x" "?x \<le> 98" using assms by simp_all
  have h: "eta \<le> 1 / 1152921504606846976" using eta_small by simp
  have "\<bar>r - 300 * ?x / 99\<bar> \<le> 1 / 17592186044416"
    by (rule sample_error_arith[OF e x h])
  then have "\<bar>r - 300 * ?x / 99\<bar> \<le> 1 / 2 ^ 44" by simp
  with v show ?thesis by blast
qed

lemma sample_values:
  "fadd (fmul (Finite False (of_nat 1)) (Finite False (3411817899523103 / 1125899906842624)))
     (Finite False 0) = Finite False (3411817899523103 / 1125899906842624)"
  "fadd (fmul (Finite False (of_nat 2)) (Finite False (3411817899523103 / 1125899906842624)))
     (Finite False 0) = Finite False (3411817899523103 / 562949953421312)"
  "fadd (fmul (Finite False (of_nat 3)) (Finite False (3411817899523103 / 1125899906842624)))
     (Finite False 0) = Finite False (2558863424642327 / 281474976710656)"
  by code_simp+

lemma sample_differences:
  "\<not> feq (fsub (Finite False (2558863424642327 / 281474976710656))
            (Finite False (3411817899523103 / 562949953421312)))
          (fsub (Finite False (3411817899523103 / 1125899906842624)) (Finite False 0))"
  by code_simp

text \<open>
  C3 (amended).  The velocity sweep has exactly 100 points, the first is \<open>0.0\<close> and the
  last is \<open>300.0\<close>.  The points are linearly spaced up to rounding: point \<open>i\<close> is within
  \<open>2^-44\<close> of \<open>300 * i / 99\<close>, so that every difference of consecutive points is
  within \<open>2^-43\<close> of \<open>300 / 99\<close>.  The differences are not all equal.
\<close>

theorem velocity_sweep:
  "length velocities = 100
   \<and> velocities ! 0 = NpFloat (Finite False 0)
   \<and> velocities ! 99 = NpFloat (Finite False 300)
   \<and> (\<forall>i < 100. is_finite (val (velocities ! i))
         \<and> \<bar>valof (val (velocities ! i)) - 300 * of_nat i / 99\<bar> \<le> 1 / 2 ^ 44)
   \<and> (\<forall>i < 99. \<bar>valof (val (velocities ! Suc i)) - valof (val (velocities ! i)) - 300 / 99\<bar>
         \<le> 1 / 2 ^ 43)"
proof -
  have pt: "is_finite (val (velocities ! i))
         \<and> \<bar>valof (val (velocities ! i)) - 300 * of_nat i / 99\<bar> \<le> 1 / 2 ^ 44"
    if "i < 100" for i
  proof (cases "i = 99")
    case True
    then show ?thesis by (simp add: velocities_last)
  next
    case False
    with that have "i < 99" by simp
    from sample_error[OF this] show ?thesis by auto
  qed
  have first: "velocities ! 0 = NpFloat (Finite False 0)"
    using velocities_nth[of 0] by (simp add: round_f64_def)
  have df: "\<bar>valof (val (velocities ! Suc i)) - valof (val (velocities ! i)) - 300 / 99\<bar>
         \<le> 1 / 2 ^ 43" if "i < 99" for i
  proof -
    from that have a: "\<bar>valof (val (velocities ! i)) - 300 * of_nat i / 99\<bar> \<le> 1 / 2 ^ 44"
      using pt[of i] by simp
    from that have b: "\<bar>valof (val (velocities ! Suc i)) - 300 * of_nat (Suc i) / 99\<bar> \<le> 1 / 2 ^ 44"
      using pt[of "Suc i"] by simp
    have c: "(300 * of_nat (Suc i) / 99 :: rat) = 300 * of_nat i / 99 + 300 / 99"
      by (simp add: field_simps)
    have "\<bar>valof (val (velocities ! Suc i)) - valof (val (velocities ! i)) - 300 / 99\<bar>
        \<le> 1 / 2 ^ 44 + 1 / 2 ^ 44"
      using a b unfolding c by linarith
    then show ?thesis by simp
  qed
  from pt first df show ?thesis by (simp add: length_velocities velocities_last)
qed

theorem velocity_sweep_witness:
  "is_finite (val (velocities ! 1))
   \<and> \<bar>valof (val (velocities ! 1)) - 300 * of_nat 1 / 99\<bar> \<le> 1 / 2 ^ 44
   \<and> \<bar>valof (val (velocities ! Suc 1)) - valof (val (velocities ! 1)) - 300 / 99\<bar> \<le> 1 / 2 ^ 43"
proof -
  have "(1::nat) < 100" "(1::nat) < 99" by simp_all
  with velocity_sweep show ?thesis by blast
qed

text \<open>The difference of the points 3 and 2 is not the difference of the points 1 and 0:
  the product \<open>3 * step\<close> is rounded.\<close>

theorem velocity_sweep_counterexample:
  "velocities ! 0 = NpFloat (Finite False 0)
   \<and> velocities ! 1 = NpFloat (Finite False (3411817899523103 / 1125899906842624))
   \<and> velocities ! 2 = NpFloat (Finite False (3411817899523103 / 562949953421312))
   \<and> velocities ! 3 = NpFloat (Finite False (2558863424642327 / 281474976710656))
   \<and> \<not> py_eq (py_sub (velocities ! 3) (velocities ! 2)) (py_sub (velocities ! 1) (velocities ! 0))"
proof -
  have 0: "velocities ! 0 = NpFloat (Finite False 0)"
    using velocities_nth[of 0] by (simp add: round_f64_def)
  have 1: "velocities ! 1 = NpFloat (Finite False (3411817899523103 / 1125899906842624))"
    proof -
    have "(1::nat) < 99" by simp
    from velocities_nth[OF this] show ?thesis by (simp only: sample_values(1))
  qed
  have 2: "velocities ! 2 = NpFloat (Finite False (3411817899523103 / 562949953421312))"
    proof -
    have "(2::nat) < 99" by simp
    from velocities_nth[OF this] show ?thesis by (simp only: sample_values(2))
  qed
  have 3: "velocities ! 3 = NpFloat (Finite False (2558863424642327 / 281474976710656))"
    proof -
    have "(3::nat) < 99" by simp
    from velocities_nth[OF this] show ?thesis by (simp only: sample_values(3))
  qed
  have "\<not> py_eq (py_sub (velocities ! 3) (velocities ! 2)) (py_sub (velocities ! 1) (velocities ! 0))"
    unfolding 0 1 2 3 using sample_differences by (simp add: py_eq_def)
  with 0 1 2 3 show ?thesis by blast
qed

section \<open>The temperature sweep\<close>

text \<open>Magnitudes along the loop body for a velocity between 0 and 300: the square is at most
  90000, the static temperature lies between 271 and 294, the correction between 0 and 8.\<close>

lemma round_mag_nat:
  assumes "n < 9007199254740992"
  shows "round_mag (of_nat n) = Some (of_nat n)"
  using f64_of_rat_nat[OF assms]
  by (simp add: f64_of_rat_def round_f64_def split: option.splits)

lemma round_f64_bound:
  assumes "0 \<le> x" "x \<le> B" "round_mag B = Some B"
  shows "\<exists>r. round_f64 False x = Finite False r \<and> 0 \<le> r \<and> r \<le> B"
proof -
  from round_mag_mono[OF assms] obtain r where r: "round_mag x = Some r" "r \<le> B" by blast
  have "0 \<le> r" by (rule round_mag_nonneg[OF assms(1) r(1)])
  with r show ?thesis by (simp add: round_f64_def)
qed

lemma fadd_comm: "fadd a b = fadd b a"
  by (cases a; cases b) (auto simp: add.commute Let_def)

lemma fadd_bound:
  assumes "\<bar>valof (Finite s m) + valof (Finite t n)\<bar> \<le> B" "round_mag B = Some B"
  shows "is_finite (fadd (Finite s m) (Finite t n))
     \<and> \<bar>valof (fadd (Finite s m) (Finite t n))\<bar> \<le> B"
proof -
  let ?q = "valof (Finite s m) + valof (Finite t n)"
  have B0: "0 \<le> B" using assms(1) by linarith
  show ?thesis
  proof (cases "?q = 0")
    case True
    then show ?thesis using B0 by simp
  next
    case False
    from round_mag_mono[OF _ assms] obtain r where r: "round_mag \<bar>?q\<bar> = Some r" "r \<le> B"
      by auto
    have r0: "0 \<le> r" by (rule round_mag_nonneg[OF _ r(1)]) simp
    have "fadd (Finite s m) (Finite t n) = Finite (?q < 0) r"
      using False r(1) by (simp add: Let_def f64_of_rat_def round_f64_def)
    then show ?thesis using r(2) r0 by (simp add: abs_if)
  qed
qed

lemma total_to_static_temperature_np:
  "total_to_static_temperature a (NpFloat v) c
     = Inr (NpFloat (fsub (val a) (fdiv (fmul (f64_of_rat (1 / 2)) (fmul v v)) (val c))))"
  by (simp add: total_to_static_temperature_def py_pow2_cases py_div_cases mk_def
      py_sub_def py_mul_def py_float_def)

lemma kinetic_correction_np:
  "kinetic_correction (NpFloat v)
     = Inr (NpFloat (fdiv (fmul (fmul (fsub (f64_of_rat 1) (val rf)) (f64_of_rat (1 / 2)))
          (fmul v v)) (val Cp)))"
  by (simp add: kinetic_correction_def py_pow2_cases py_div_cases mk_def
      py_sub_def py_mul_def py_float_def py_int_def Let_def)

lemma val_T_total: "val T_total = Finite False (2578574669460275 / 8796093022208)"
  by code_simp

lemma val_Cp: "val Cp = Finite False 2080"
  by code_simp

lemma recovery_factor:
  "fmul (fsub (f64_of_rat 1) (val rf)) (f64_of_rat (1 / 2))
     = Finite False (3152519739159347 / 18014398509481984)"
  by code_simp

lemma round_mag_consts:
  "round_mag 90000 = Some 90000" "round_mag 45000 = Some 45000" "round_mag 22 = Some 22"
  "round_mag 294 = Some 294" "round_mag 271 = Some 271" "round_mag 15751 = Some 15751"
  "round_mag 8 = Some 8" "round_mag 302 = Some 302" "round_mag 596 = Some 596"
  using round_mag_nat[of 90000] round_mag_nat[of 45000] round_mag_nat[of 22]
    round_mag_nat[of 294] round_mag_nat[of 271] round_mag_nat[of 15751]
    round_mag_nat[of 8] round_mag_nat[of 302] round_mag_nat[of 596]
  by simp_all

lemma square_bound:
  assumes "0 \<le> v" "v \<le> 300"
  shows "\<exists>w. fmul (Finite False v) (Finite False v) = Finite False w \<and> 0 \<le> w \<and> w \<le> 90000"
proof -
  have "v * v \<le> 300 * 300" using assms by (intro mult_mono) simp_all
  then have "v * v \<le> 90000" by simp
  from round_f64_bound[OF _ this round_mag_consts(1)] show ?thesis by simp
qed

lemma static_temperature_bounds:
  assumes "0 \<le> w" "w \<le> 90000"
  shows "\<exists>ts. fsub (val T_total) (fdiv (fmul (f64_of_rat (1 / 2)) (Finite False w)) (val Cp))
           = Finite False ts \<and> 271 \<le> ts \<and> ts \<le> 294"
proof -
  have "w / 2 \<le> 45000" using assms by simp
  from round_f64_bound[OF _ this round_mag_consts(2)] assms(1) obtain a where
    a: "round_f64 False (w / 2) = Finite False a" "0 \<le> a" "a \<le> 45000" by auto
  have "a / 2080 \<le> 22" using a(3) by simp
  from round_f64_bound[OF _ this round_mag_consts(3)] a(2) obtain c where
    c: "round_f64 False (a / 2080) = Finite False c" "0 \<le> c" "c \<le> 22" by auto
  let ?t = "2578574669460275 / 8796093022208 :: rat"
  have q: "271 \<le> ?t - c" "?t - c \<le> 294" using c(2,3) by simp_all
  then have q0: "0 \<le> ?t - c" by linarith
  from round_f64_bound[OF q0 q(2) round_mag_consts(4)] obtain ts where
    ts: "round_f64 False (?t - c) = Finite False ts" "ts \<le> 294" by blast
  then have rm: "round_mag (?t - c) = Some ts" by (simp add: round_f64_def split: option.splits)
  have lo: "271 \<le> ts" by (rule round_mag_ge_repr[OF _ q(1) round_mag_consts(5) rm]) simp
  have sub: "fsub (Finite False ?t) (Finite False c) = Finite False ts"
    using q(1) ts(1) by (simp add: fsub_def Let_def f64_of_rat_def abs_if)
  have "fmul (f64_of_rat (1 / 2)) (Finite False w) = Finite False a"
    using a(1) by (simp add: f64_of_rat_half)
  moreover have "fdiv (Finite False a) (Finite False 2080) = Finite False c"
    using c(1) by simp
  ultimately have "fsub (val T_total) (fdiv (fmul (f64_of_rat (1 / 2)) (Finite False w)) (val Cp))
      = Finite False ts"
    using sub by (simp only: val_T_total val_Cp)
  with lo ts(2) show ?thesis by blast
qed

lemma kinetic_correction_bounds:
  assumes "0 \<le> w" "w \<le> 90000"
  shows "\<exists>k. fdiv (fmul (fmul (fsub (f64_of_rat 1) (val rf)) (f64_of_rat (1 / 2)))
            (Finite False w)) (val Cp) = Finite False k \<and> 0 \<le> k \<and> k \<le> 8"
proof -
  let ?f = "3152519739159347 / 18014398509481984 :: rat"
  have "?f * w \<le> ?f * 90000" using assms(2) by (intro mult_left_mono) simp_all
  also have "\<dots> \<le> 15751" by simp
  finally have "?f * w \<le> 15751" .
  moreover have "0 \<le> ?f * w" using assms(1) by simp
  ultimately obtain b where b: "round_f64 False (?f * w) = Finite False b" "0 \<le> b" "b \<le> 15751"
    using round_f64_bound[OF _ _ round_mag_consts(6)] by blast
  have "b / 2080 \<le> 8" using b(3) by simp
  from round_f64_bound[OF _ this round_mag_consts(7)] b(2) obtain k where
    k: "round_f64 False (b / 2080) = Finite False k" "0 \<le> k" "k \<le> 8" by auto
  have "fmul (Finite False ?f) (Finite False w) = Finite False b"
    using b(1) by (simp only: fmul.simps) simp
  moreover have "fdiv (Finite False b) (Finite False 2080) = Finite False k"
    using k(1) by simp
  ultimately have "fdiv (fmul (fmul (fsub (f64_of_rat 1) (val rf)) (f64_of_rat (1 / 2)))
            (Finite False w)) (val Cp) = Finite False k"
    by (simp only: recovery_factor val_Cp)
  then show ?thesis using k(2,3) by blast
qed

lemma difference_error:
  assumes "271 \<le> ts" "ts \<le> 294" "0 \<le> k" "k \<le> 8"
  shows "is_finite (fsub (fadd (Finite False ts) (Finite False k)) (Finite False ts))
     \<and> \<bar>valof (fsub (fadd (Finite False ts) (Finite False k)) (Finite False ts)) - k\<bar>
           \<le> 1 / 2 ^ 43"
proof -
  let ?T = "Finite False ts" and ?K = "Finite False k"
  have "\<bar>valof ?K + valof ?T\<bar> \<le> 302" using assms by simp
  from fadd_bound[OF this round_mag_consts(8)]
  have s: "is_finite (fadd ?K ?T)" "\<bar>valof (fadd ?K ?T)\<bar> \<le> 302" by simp_all
  then obtain u m where um: "fadd ?K ?T = Finite u m" by (cases "fadd ?K ?T") auto
  have "\<bar>valof (Finite u m) + valof (Finite True ts)\<bar> \<le> 596" using s(2) assms unfolding um
    by (simp add: abs_if split: if_splits)
  from fadd_bound[OF this round_mag_consts(9)]
  have "is_finite (fadd (Finite u m) (Finite True ts))" by blast
  then have d: "is_finite (fsub (fadd ?K ?T) ?T)" by (simp only: fsub_def um fneg.simps) simp
  from add_sub_roundtrip[OF s(1) d]
  have "\<bar>valof (fsub (fadd ?K ?T) ?T) - k\<bar> \<le> (\<bar>k\<bar> + \<bar>valof (fadd ?K ?T)\<bar>) / 2 ^ 52 + 4 * eta"
    by (simp only: four_eta valof.simps if_False)
  moreover have "(\<bar>k\<bar> + \<bar>valof (fadd ?K ?T)\<bar>) / 2 ^ 52 \<le> 310 / 2 ^ 52"
    using s(2) assms by (intro divide_right_mono) simp_all
  moreover have "4 * eta \<le> 4 / 2 ^ 60" using eta_small by simp
  ultimately have "\<bar>valof (fsub (fadd ?K ?T) ?T) - k\<bar> \<le> 310 / 2 ^ 52 + 4 / 2 ^ 60"
    by linarith
  also have "\<dots> \<le> 1 / 2 ^ 43" by simp
  finally have "\<bar>valof (fsub (fadd ?K ?T) ?T) - k\<bar> \<le> 1 / 2 ^ 43" .
  with d show ?thesis by (simp only: fadd_comm[of ?T ?K])
qed

lemma temperature_loop_elements:
  assumes "\<forall>V \<in> set Vs. is_np V"
  shows "\<exists>st'. temperature_loop Vs st = Inr st'
     \<and> length (T_diff_measured_static st') = length (T_diff_measured_static st) + length Vs
     \<and> take (length (T_diff_measured_static st)) (T_diff_measured_static st')
          = T_diff_measured_static st
     \<and> (\<forall>i < length Vs. \<exists>T_static c.
           total_to_static_temperature T_total (Vs ! i) Cp = Inr T_static
         \<and> kinetic_correction (Vs ! i) = Inr c
         \<and> T_diff_measured_static st' ! (length (T_diff_measured_static st) + i)
              = py_sub (py_add T_static c) T_static)"
  using assms
proof (induction Vs arbitrary: st)
  case Nil
  then show ?case by simp
next
  case (Cons V Vs)
  then have np: "is_np V" and rest: "\<forall>V \<in> set Vs. is_np V" by simp_all
  from np obtain v where v: "V = NpFloat v" by (cases V) auto
  obtain Ts where Ts: "total_to_static_temperature T_total V Cp = Inr Ts"
    unfolding v total_to_static_temperature_np by blast
  obtain c where c: "kinetic_correction V = Inr c"
    unfolding v kinetic_correction_np by blast
  let ?y = "py_sub (py_add Ts c) Ts"
  let ?st = "\<lparr>T_measured_values = T_measured_values st @ [py_add Ts c],
             T_static_values = T_static_values st @ [Ts],
             T_diff_measured_static = T_diff_measured_static st @ [?y]\<rparr>"
  let ?n = "length (T_diff_measured_static st)"
  from Cons.IH[OF rest, of ?st] obtain st' where
    l: "temperature_loop Vs ?st = Inr st'"
    and len: "length (T_diff_measured_static st') = Suc ?n + length Vs"
    and tk: "take (Suc ?n) (T_diff_measured_static st') = T_diff_measured_static st @ [?y]"
    and el: "\<forall>i < length Vs. \<exists>T_static c.
           total_to_static_temperature T_total (Vs ! i) Cp = Inr T_static
         \<and> kinetic_correction (Vs ! i) = Inr c
         \<and> T_diff_measured_static st' ! (Suc ?n + i) = py_sub (py_add T_static c) T_static"
    by auto
  have step: "temperature_loop (V # Vs) st = Inr st'"
    by (simp add: Ts c l Let_def)
  have tk': "take ?n (T_diff_measured_static st') = T_diff_measured_static st"
  proof -
    have "take ?n (take (Suc ?n) (T_diff_measured_static st'))
        = take ?n (T_diff_measured_static st @ [?y])" by (simp only: tk)
    then show ?thesis by (simp add: min_def)
  qed
  have at: "T_diff_measured_static st' ! ?n = ?y"
  proof -
    have "take (Suc ?n) (T_diff_measured_static st') ! ?n
        = (T_diff_measured_static st @ [?y]) ! ?n"
      by (simp only: tk)
    then show ?thesis by simp
  qed
  have "\<forall>i < length (V # Vs). \<exists>T_static c.
           total_to_static_temperature T_total ((V # Vs) ! i) Cp = Inr T_static
         \<and> kinetic_correction ((V # Vs) ! i) = Inr c
         \<and> T_diff_measured_static st' ! (?n + i) = py_sub (py_add T_static c) T_static"
  proof (intro allI impI)
    fix i assume i: "i < length (V # Vs)"
    show "\<exists>T_static c.
           total_to_static_temperature T_total ((V # Vs) ! i) Cp = Inr T_static
         \<and> kinetic_correction ((V # Vs) ! i) = Inr c
         \<and> T_diff_measured_static st' ! (?n + i) = py_sub (py_add T_static c) T_static"
    proof (cases i)
      case 0
      then show ?thesis using Ts c at by simp
    next
      case (Suc j)
      then have "j < length Vs" using i by simp
      with el Suc show ?thesis by simp
    qed
  qed
  with step len tk' show ?case by auto
qed

lemma velocities_range:
  assumes "i < 100"
  shows "\<exists>v. velocities ! i = NpFloat (Finite False v) \<and> 0 \<le> v \<and> v \<le> 300"
proof (cases "i < 99")
  case True
  from sample_rounding[OF True] show ?thesis by blast
next
  case False
  then have "i = 99" using assms by simp
  then show ?thesis by (simp add: velocities_last)
qed

lemma sample_difference:
  assumes "0 \<le> v" "v \<le> 300"
    and "total_to_static_temperature T_total (NpFloat (Finite False v)) Cp = Inr T_static"
    and "kinetic_correction (NpFloat (Finite False v)) = Inr c"
  shows "is_finite (val (py_sub (py_add T_static c) T_static))
     \<and> \<bar>valof (val (py_sub (py_add T_static c) T_static)) - valof (val c)\<bar> \<le> 1 / 2 ^ 43"
proof -
  from square_bound[OF assms(1,2)] obtain w where
    w: "fmul (Finite False v) (Finite False v) = Finite False w" "0 \<le> w" "w \<le> 90000" by blast
  from static_temperature_bounds[OF w(2,3)] obtain ts where
    ts: "fsub (val T_total) (fdiv (fmul (f64_of_rat (1 / 2)) (Finite False w)) (val Cp))
           = Finite False ts" "271 \<le> ts" "ts \<le> 294" by blast
  from kinetic_correction_bounds[OF w(2,3)] obtain k where
    k: "fdiv (fmul (fmul (fsub (f64_of_rat 1) (val rf)) (f64_of_rat (1 / 2)))
            (Finite False w)) (val Cp) = Finite False k" "0 \<le> k" "k \<le> 8" by blast
  have T: "T_static = NpFloat (Finite False ts)"
    using assms(3) unfolding total_to_static_temperature_np w(1) ts(1) by simp
  have c: "c = NpFloat (Finite False k)"
    using assms(4) unfolding kinetic_correction_np w(1) k(1) by simp
  have "val (py_sub (py_add T_static c) T_static)
      = fsub (fadd (Finite False ts) (Finite False k)) (Finite False ts)"
    unfolding T c by (simp only: val_py_arith val.simps)
  with difference_error[OF ts(2,3) k(2,3)] show ?thesis unfolding c by simp
qed

text \<open>Claim C5, up to rounding. The temperature script raises nothing and records one
  difference per velocity sample. Element \<open>i\<close> is \<open>T_measured - T_static\<close> with \<open>T_static\<close> the
  result of \<open>total_to_static_temperature(T_total, V_i, Cp)\<close> and
  \<open>T_measured = T_static + c\<close>, where \<open>c\<close> is the value of \<open>(1 - rf) * 0.5 * V_i**2 / Cp\<close>; it is
  finite and within \<open>2\<^sup>-\<^sup>4\<^sup>3\<close> of \<open>c\<close>.\<close>

theorem temperature_sweep_differences:
  "\<exists>st. temperature_sensitivity = Inr st
     \<and> length (T_diff_measured_static st) = length velocities
     \<and> (\<forall>i < length velocities. \<exists>T_static c.
           total_to_static_temperature T_total (velocities ! i) Cp = Inr T_static
         \<and> kinetic_correction (velocities ! i) = Inr c
         \<and> T_diff_measured_static st ! i = py_sub (py_add T_static c) T_static
         \<and> is_finite (val (T_diff_measured_static st ! i))
         \<and> \<bar>valof (val (T_diff_measured_static st ! i)) - valof (val c)\<bar> \<le> 1 / 2 ^ 43)"
proof -
  let ?st0 = "\<lparr>T_measured_values = [], T_static_values = [], T_diff_measured_static = []\<rparr>"
  from temperature_loop_elements[OF velocities_np, of ?st0] obtain st where
    st: "temperature_sensitivity = Inr st"
    and len: "length (T_diff_measured_static st) = length velocities"
    and el: "\<forall>i < length velocities. \<exists>T_static c.
           total_to_static_temperature T_total (velocities ! i) Cp = Inr T_static
         \<and> kinetic_correction (velocities ! i) = Inr c
         \<and> T_diff_measured_static st ! i = py_sub (py_add T_static c) T_static"
    unfolding temperature_sensitivity_def by auto
  have "\<forall>i < length velocities. \<exists>T_static c.
           total_to_static_temperature T_total (velocities ! i) Cp = Inr T_static
         \<and> kinetic_correction (velocities ! i) = Inr c
         \<and> T_diff_measured_static st ! i = py_sub (py_add T_static c) T_static
         \<and> is_finite (val (T_diff_measured_static st ! i))
         \<and> \<bar>valof (val (T_diff_measured_static st ! i)) - valof (val c)\<bar> \<le> 1 / 2 ^ 43"
  proof (intro allI impI)
    fix i assume i: "i < length velocities"
    from el i obtain Ts c where
      e: "total_to_static_temperature T_total (velocities ! i) Cp = Inr Ts"
         "kinetic_correction (velocities ! i) = Inr c"
         "T_diff_measured_static st ! i = py_sub (py_add Ts c) Ts" by blast
    from i velocities_range[of i] obtain v where
      v: "velocities ! i = NpFloat (Finite False v)" "0 \<le> v" "v \<le> 300"
      by (auto simp: length_velocities)
    from sample_difference[OF v(2,3) e(1,2)[unfolded v(1)]] e
    show "\<exists>T_static c.
           total_to_static_temperature T_total (velocities ! i) Cp = Inr T_static
         \<and> kinetic_correction (velocities ! i) = Inr c
         \<and> T_diff_measured_static st ! i = py_sub (py_add T_static c) T_static
         \<and> is_finite (val (T_diff_measured_static st ! i))
         \<and> \<bar>valof (val (T_diff_measured_static st ! i)) - valof (val c)\<bar> \<le> 1 / 2 ^ 43"
      by (simp only:) blast
  qed
  with st len show ?thesis by blast
qed

lemma last_static_temperature:
  "total_to_static_temperature T_total (NpFloat (Finite False 300)) Cp
     = Inr (NpFloat (Finite False (1194137290018753 / 4398046511104)))"
  by code_simp

lemma last_kinetic_correction:
  "kinetic_correction (NpFloat (Finite False 300))
     = Inr (NpFloat (Finite False (8525444006140061 / 1125899906842624)))"
  by code_simp

lemma last_difference:
  "py_sub (py_add (NpFloat (Finite False (1194137290018753 / 4398046511104)))
       (NpFloat (Finite False (8525444006140061 / 1125899906842624))))
     (NpFloat (Finite False (1194137290018753 / 4398046511104)))
     = NpFloat (Finite False (66605031297969 / 8796093022208))"
  by code_simp

lemma last_difference_neq:
  "\<not> py_eq (NpFloat (Finite False (66605031297969 / 8796093022208)))
       (NpFloat (Finite False (8525444006140061 / 1125899906842624)))"
  by code_simp

text \<open>The recorded difference is not equal to the correction itself: at the last sample,
  \<open>V = 300.0\<close>, the correction is \<open>7.572115384615384\<close> and the recorded difference is
  \<open>7.572115384615358\<close>.\<close>

theorem temperature_sweep_counterexample:
  "\<not> isl temperature_sensitivity
   \<and> kinetic_correction (velocities ! 99)
       = Inr (NpFloat (Finite False (8525444006140061 / 1125899906842624)))
   \<and> T_diff_measured_static (projr temperature_sensitivity) ! 99
       = NpFloat (Finite False (66605031297969 / 8796093022208))
   \<and> \<not> py_eq (T_diff_measured_static (projr temperature_sensitivity) ! 99)
         (NpFloat (Finite False (8525444006140061 / 1125899906842624)))"
proof -
  let ?st0 = "\<lparr>T_measured_values = [], T_static_values = [], T_diff_measured_static = []\<rparr>"
  from temperature_loop_elements[OF velocities_np, of ?st0] obtain st where
    st: "temperature_sensitivity = Inr st"
    and el: "\<forall>i < length velocities. \<exists>T_static c.
           total_to_static_temperature T_total (velocities ! i) Cp = Inr T_static
         \<and> kinetic_correction (velocities ! i) = Inr c
         \<and> T_diff_measured_static st ! i = py_sub (py_add T_static c) T_static"
    unfolding temperature_sensitivity_def by auto
  have "(99::nat) < length velocities" by (simp add: length_velocities)
  with el obtain Ts c where
    e: "total_to_static_temperature T_total (velocities ! 99) Cp = Inr Ts"
       "kinetic_correction (velocities ! 99) = Inr c"
       "T_diff_measured_static st ! 99 = py_sub (py_add Ts c) Ts" by blast
  have Ts: "Ts = NpFloat (Finite False (1194137290018753 / 4398046511104))"
    using e(1) unfolding velocities_last last_static_temperature by simp
  have c: "c = NpFloat (Finite False (8525444006140061 / 1125899906842624))"
    using e(2) unfolding velocities_last last_kinetic_correction by simp
  have d: "T_diff_measured_static st ! 99
      = NpFloat (Finite False (66605031297969 / 8796093022208))"
    unfolding e(3) Ts c by (rule last_difference)
  show ?thesis
    unfolding st sum.sel d velocities_last last_kinetic_correction
    using last_difference_neq by simp
qed

text \<open>The last sample as an instance.\<close>

theorem temperature_sweep_differences_witness:
  "\<not> isl temperature_sensitivity
   \<and> length (T_diff_measured_static (projr temperature_sensitivity)) = 100
   \<and> is_finite (val (T_diff_measured_static (projr temperature_sensitivity) ! 99))
   \<and> \<bar>valof (val (T_diff_measured_static (projr temperature_sensitivity) ! 99))
        - 8525444006140061 / 1125899906842624\<bar> \<le> 1 / 2 ^ 43"
proof -
  from temperature_sweep_differences obtain st where
    st: "temperature_sensitivity = Inr st"
    and len: "length (T_diff_measured_static st) = length velocities"
    and el: "\<forall>i < length velocities. \<exists>T_static c.
           total_to_static_temperature T_total (velocities ! i) Cp = Inr T_static
         \<and> kinetic_correction (velocities ! i) = Inr c
         \<and> T_diff_measured_static st ! i = py_sub (py_add T_static c) T_static
         \<and> is_finite (val (T_diff_measured_static st ! i))
         \<and> \<bar>valof (val (T_diff_measured_static st ! i)) - valof (val c)\<bar> \<le> 1 / 2 ^ 43"
    by blast
  have "(99::nat) < length velocities" by (simp add: length_velocities)
  with el obtain c where
    e: "kinetic_correction (velocities ! 99) = Inr c"
       "is_finite (val (T_diff_measured_static st ! 99))"
       "\<bar>valof (val (T_diff_measured_static st ! 99)) - valof (val c)\<bar> \<le> 1 / 2 ^ 43" by blast
  have c: "c = NpFloat (Finite False (8525444006140061 / 1125899906842624))"
    using e(1) unfolding velocities_last last_kinetic_correction by simp
  show ?thesis
    using e(2,3) len unfolding st c by (simp add: length_velocities)
qed

end
